theory Spec2Isabelle
  imports
    Complex_Main
    "HOL-Library.Sublist"
    "HOL-Library.Multiset"
    "HOL-Library.Char_ord"
    "HOL-Library.List_Lexorder"
begin

section \<open>Paths, entries and errors\<close>

text \<open>
  A file is identified by the text of its path, with \<open>/\<close> as separator. The
  class directories are \<open>pathlib\<close> paths (\<open>list_dirs\<close> builds them), and the
  program reads their \<open>stem\<close> and splits them with \<open>path.split\<close>. The files of a
  class are the answers of the external lister, which are \<open>str\<close> values: the program
  cuts them with \<open>split\<close>, joins them with \<open>os.path.join\<close> and hands them to
  \<open>shutil\<close>. The grouper is written for entries that have a \<open>name\<close>, computed
  here from the text of the path.
  Contents of files are byte strings. Directories are implicit: a directory is there
  as soon as something is stored beneath it, so \<open>mkdir\<close> and \<open>makedirs\<close> with
  \<open>exist_ok\<close> leave the file system as it is.
\<close>

type_synonym path = string
type_synonym content = string
type_synonym filesys = "path \<rightharpoonup> content"

text \<open>
  An entry of a class is a single file or, under grouping, a tuple of files
  (\<open>type(f) == tuple\<close> in the source).
\<close>

datatype entry = File path | Group "path list"

text \<open>
  Every \<open>raise\<close>, failed \<open>assert\<close> and failing library call of the source is a
  value of this type:
  \<^item> \<open>TooFewSamples stem n fixed required\<close>: the \<open>ValueError\<close> of
    \<open>split_class_dir_fixed\<close>, with the four values its message interpolates;
  \<^item> \<open>UnequalPairs f wanted found\<close>, \<open>NoAdequateMatches f\<close>,
    \<open>NotEnoughMatches grouped total\<close>: the three \<open>ValueError\<close>s of
    \<open>group_by_prefix\<close>, with the values their messages interpolate;
  \<^item> \<open>EmptyMax\<close>: \<open>max\<close> of an empty list;
  \<^item> \<open>AttributeError\<close>: \<open>f.split\<close> on a tuple, and \<open>name\<close>,
    \<open>stem\<close>, \<open>suffix\<close> or \<open>with_name\<close> read from a \<open>str\<close>;
    \<open>MoveTypeError\<close>: \<open>shutil.move\<close> on a tuple;
  \<^item> \<open>FileNotFound\<close>, \<open>SameFile\<close>, \<open>DestinationExists\<close>: failures of
    \<open>shutil.copy2\<close> and \<open>shutil.move\<close>.
\<close>

datatype error =
    AssertionError
  | IndexError
  | AttributeError
  | MoveTypeError
  | EmptyMax
  | TooFewSamples string nat "int list" int
  | UnequalPairs path int nat
  | NoAdequateMatches path
  | NotEnoughMatches nat nat
  | FileNotFound path
  | SameFile path
  | DestinationExists path

definition ebind :: "'e + 'a \<Rightarrow> ('a \<Rightarrow> 'e + 'b) \<Rightarrow> 'e + 'b" where
  "ebind m f = (case m of Inl e \<Rightarrow> Inl e | Inr x \<Rightarrow> f x)"

subsection \<open>Path text\<close>

definition sep :: char where
  "sep = CHR ''/''"

text \<open>The last component: \<open>path.split(p)[1]\<close>, \<open>os.path.basename\<close>, \<open>Path.name\<close>.\<close>

definition basename :: "path \<Rightarrow> string" where
  "basename p = rev (takeWhile (\<lambda>c. c \<noteq> sep) (rev p))"

text \<open>
  \<open>Path.suffix\<close> and \<open>Path.stem\<close>: the name is cut at its last dot, unless that
  dot is the first or the last character of the name.
\<close>

definition path_suffix :: "path \<Rightarrow> string" where
  "path_suffix p =
     (let n = basename p; e = rev (takeWhile (\<lambda>c. c \<noteq> CHR ''.'') (rev n))
      in if length e < length n \<and> Suc (length e) < length n \<and> e \<noteq> []
         then drop (length n - Suc (length e)) n else [])"

definition path_stem :: "path \<Rightarrow> string" where
  "path_stem p = (let n = basename p in take (length n - length (path_suffix p)) n)"

text \<open>\<open>os.path.join\<close> of two components.\<close>

definition path_join :: "path \<Rightarrow> path \<Rightarrow> path" where
  "path_join a b =
     (if b \<noteq> [] \<and> hd b = sep then b
      else if a = [] \<or> last a = sep then a @ b
      else a @ [sep] @ b)"

text \<open>
  \<open>s.split(d, 1)[-1]\<close> for a non-empty \<open>d\<close>: what follows the first occurrence of
  \<open>d\<close> in \<open>s\<close>, and the whole of \<open>s\<close> when \<open>d\<close> does not occur.
\<close>

fun after_first :: "string \<Rightarrow> string \<Rightarrow> string option" where
  "after_first d [] = (if d = [] then Some [] else None)"
| "after_first d (c # cs) =
     (if prefix d (c # cs) then Some (drop (length d) (c # cs)) else after_first d cs)"

definition split_last :: "string \<Rightarrow> string \<Rightarrow> string" where
  "split_last s d = (case after_first d s of None \<Rightarrow> s | Some r \<Rightarrow> r)"

text \<open>\<open>str(i)\<close> for a non-negative integer.\<close>

definition digit_char :: "nat \<Rightarrow> char" where
  "digit_char d = char_of (48 + d)"

fun str_nat :: "nat \<Rightarrow> string" where
  "str_nat n = (if n < 10 then [digit_char n] else str_nat (n div 10) @ [digit_char (n mod 10)])"

declare str_nat.simps [simp del]

subsection \<open>Python slices\<close>

text \<open>
  An index of a slice: a negative one counts from the end, and both ends are clamped
  to the list.
\<close>

definition py_clamp :: "nat \<Rightarrow> int \<Rightarrow> nat" where
  "py_clamp n i = (if i < 0 then nat (max 0 (int n + i)) else min n (nat i))"

definition py_slice :: "'a list \<Rightarrow> int option \<Rightarrow> int option \<Rightarrow> 'a list" where
  "py_slice xs lo hi =
     (let n = length xs;
          a = (case lo of None \<Rightarrow> 0 | Some i \<Rightarrow> py_clamp n i);
          b = (case hi of None \<Rightarrow> n | Some i \<Rightarrow> py_clamp n i)
      in take (b - a) (drop a xs))"

text \<open>\<open>int(x)\<close> of a float: truncation towards zero.\<close>

definition py_int :: "real \<Rightarrow> int" where
  "py_int x = (if 0 \<le> x then \<lfloor>x\<rfloor> else \<lceil>x\<rceil>)"

text \<open>\<open>xs[i]\<close> for a literal index \<open>i \<ge> 0\<close>.\<close>

definition py_index :: "'a list \<Rightarrow> nat \<Rightarrow> error + 'a" where
  "py_index xs i = (if i < length xs then Inr (xs ! i) else Inl IndexError)"

section \<open>The prefix grouper\<close>

text \<open>
  \<open>group_by_prefix\<close>, lines 144 to 178. \<open>matches\<close> is the list comprehension of
  the inner loop; \<open>shrink\<close> is the inner \<open>for _ in range(len(f_sub))\<close> loop with
  its \<open>else\<close> branch, the first argument counting the iterations that are left;
  \<open>group_loop\<close> is the outer loop over the files, carrying \<open>results\<close> and
  \<open>results_set\<close>.
\<close>

definition matches :: "path list \<Rightarrow> string set \<Rightarrow> path \<Rightarrow> string \<Rightarrow> path list" where
  "matches files results_set f f_sub =
     filter (\<lambda>x. basename x \<notin> results_set \<and> prefix f_sub (basename x)
                 \<and> basename f \<noteq> basename x) files"

fun shrink :: "nat \<Rightarrow> path list \<Rightarrow> string set \<Rightarrow> int \<Rightarrow> path \<Rightarrow> string \<Rightarrow> error + path list" where
  "shrink 0 files results_set len_pairs f f_sub = Inl (NoAdequateMatches f)"
| "shrink (Suc n) files results_set len_pairs f f_sub =
     (let ms = matches files results_set f f_sub in
      if int (length ms) = len_pairs - 1 then Inr (f # ms)
      else if int (length ms) < len_pairs - 1
        then shrink n files results_set len_pairs f (butlast f_sub)
      else Inl (UnequalPairs f (len_pairs - 1) (length ms)))"

fun group_loop ::
  "path list \<Rightarrow> int \<Rightarrow> path list \<Rightarrow> path list list \<times> string set
     \<Rightarrow> error + (path list list \<times> string set)" where
  "group_loop files len_pairs [] acc = Inr acc"
| "group_loop files len_pairs (f # fs) (results, results_set) =
     (if basename f \<in> results_set then group_loop files len_pairs fs (results, results_set)
      else case shrink (length (basename f)) files results_set len_pairs f (basename f) of
             Inl e \<Rightarrow> Inl e
           | Inr g \<Rightarrow> group_loop files len_pairs fs
                       (results @ [g], results_set \<union> set (map basename g)))"

definition group_by_prefix :: "path list \<Rightarrow> int \<Rightarrow> error + path list list" where
  "group_by_prefix files len_pairs =
     (case group_loop files len_pairs files ([], {}) of
        Inl e \<Rightarrow> Inl e
      | Inr (results, results_set) \<Rightarrow>
          if card results_set \<noteq> length files
          then Inl (NotEnoughMatches (card results_set) (length files))
          else Inr results)"


text \<open>
  The three \<open>ValueError\<close>s of the grouper, and the number of other ungrouped files
  that share the candidate prefix of \<open>f\<close> after \<open>j\<close> shortenings.
\<close>

definition grouping_error :: "error \<Rightarrow> bool" where
  "grouping_error e =
     (case e of UnequalPairs f w n \<Rightarrow> True | NoAdequateMatches f \<Rightarrow> True
              | NotEnoughMatches a b \<Rightarrow> True | _ \<Rightarrow> False)"

definition n_matches :: "path list \<Rightarrow> string set \<Rightarrow> path \<Rightarrow> nat \<Rightarrow> nat" where
  "n_matches files rs f j =
     length (matches files rs f (take (length (basename f) - j) (basename f)))"

text \<open>The invariant of the outer loop of the grouper.\<close>

definition grouped_ok :: "path list \<Rightarrow> int \<Rightarrow> path list list \<times> string set \<Rightarrow> bool" where
  "grouped_ok files k acc =
     (snd acc = basename ` set (concat (fst acc)) \<and> set (concat (fst acc)) \<subseteq> set files
      \<and> (\<forall>g\<in>set (fst acc). int (length g) = k)
      \<and> (distinct files \<and> inj_on basename (set files) \<longrightarrow> distinct (concat (fst acc))))"

section \<open>External collaborators and the state\<close>

text \<open>
  The file enumerator (\<open>pathlib\<close>'s \<open>iterdir\<close> behind \<open>list_dirs\<close>, the
  \<open>nb_utils\<close> lister behind \<open>list_files\<close>), the pseudo-random generator of the
  \<open>random\<close> module and the floating-point product are not code of this repository:
  the model takes them as parameters. \<open>list_dirs\<close> and \<open>list_files\<close> answer in
  the order the file system iterates in. \<open>seed_rng\<close> is \<open>random.seed\<close>,
  \<open>shuffle_rng\<close> is \<open>random.shuffle\<close> on the generator's state, \<open>randbelow\<close>
  is the draw behind \<open>random.choice\<close>, and \<open>float_mul r n\<close> is the float
  \<open>r * n\<close>.
\<close>

record 'r env =
  list_dirs :: "filesys \<Rightarrow> path \<Rightarrow> path list"
  list_files :: "filesys \<Rightarrow> path \<Rightarrow> path list"
  seed_rng :: "int \<Rightarrow> 'r"
  shuffle_rng :: "'r \<Rightarrow> entry list \<Rightarrow> entry list \<times> 'r"
  randbelow :: "'r \<Rightarrow> nat \<Rightarrow> nat \<times> 'r"
  float_mul :: "real \<Rightarrow> nat \<Rightarrow> real"

text \<open>The file system and the process-wide state of the random module.\<close>

record 'r state =
  fsys :: filesys
  rng :: 'r

text \<open>\<open>random.choice\<close>: \<open>IndexError\<close> on an empty sequence, else \<open>seq[randbelow(len(seq))]\<close>.\<close>

definition choice :: "'r env \<Rightarrow> path list \<Rightarrow> 'r \<Rightarrow> error + (path \<times> 'r)" where
  "choice E seq r =
     (if seq = [] then Inl IndexError
      else let (j, r') = randbelow E r (length seq)
           in if j < length seq then Inr (seq ! j, r') else Inl IndexError)"

section \<open>The shuffler\<close>

text \<open>
  The answers of the lister are \<open>str\<close> values, and a \<open>str\<close> has none of the
  attributes of a \<open>pathlib\<close> path: reading \<open>name\<close>, \<open>stem\<close>, \<open>suffix\<close>
  or \<open>with_name\<close> of one raises \<open>AttributeError\<close>.
\<close>

definition str_attr :: "path \<Rightarrow> error + string" where
  "str_attr f = Inl AttributeError"

text \<open>
  \<open>group_by_prefix\<close> as \<open>setup_files\<close> calls it, on the answers of the lister.
  The outer loop begins by reading \<open>f.name\<close> of the first file, which raises; on
  an empty listing no attribute is read and the grouper returns its empty result.
\<close>

definition group_by_prefix_str :: "path list \<Rightarrow> int \<Rightarrow> error + path list list" where
  "group_by_prefix_str files len_pairs =
     (case files of
        [] \<Rightarrow> group_by_prefix [] len_pairs
      | f # rest \<Rightarrow> ebind (str_attr f) (\<lambda>name. group_by_prefix files len_pairs))"

text \<open>
  \<open>setup_files\<close>, lines 181 to 194: the generator is seeded, the class is listed,
  grouped when \<open>group_prefix\<close> is given, sorted and shuffled.
\<close>

definition setup_files ::
  "'r env \<Rightarrow> path \<Rightarrow> int \<Rightarrow> int option \<Rightarrow> 'r state \<Rightarrow> error + (entry list \<times> 'r state)" where
  "setup_files E class_dir seed group_prefix s =
     (let s1 = s\<lparr>rng := seed_rng E seed\<rparr>;
          files = list_files E (fsys s1) class_dir
      in case group_prefix of
           None \<Rightarrow>
             (let (shuffled, r) = shuffle_rng E (rng s1) (map File (sort files))
              in Inr (shuffled, s1\<lparr>rng := r\<rparr>))
         | Some k \<Rightarrow>
             (case group_by_prefix_str files k of
                Inl e \<Rightarrow> Inl e
              | Inr groups \<Rightarrow>
                  (let (shuffled, r) = shuffle_rng E (rng s1) (map Group (sort groups))
                   in Inr (shuffled, s1\<lparr>rng := r\<rparr>))))"

section \<open>The partitioner\<close>

text \<open>\<open>split_files\<close>, lines 233 to 247.\<close>

definition split_files :: "'a list \<Rightarrow> int \<Rightarrow> int \<Rightarrow> bool \<Rightarrow> ('a list \<times> string) list" where
  "split_files files split_train_idx split_val_idx use_test =
     (let files_train = py_slice files None (Some split_train_idx);
          files_val = (if use_test
                       then py_slice files (Some split_train_idx) (Some split_val_idx)
                       else py_slice files (Some split_train_idx) None);
          li = [(files_train, ''train''), (files_val, ''val'')]
      in if use_test
         then li @ [(py_slice files (Some split_val_idx) None, ''test'')]
         else li)"

text \<open>
  The indices of \<open>split_class_dir_ratio\<close> (lines 203 to 206) and of
  \<open>split_class_dir_fixed\<close> (lines 219 to 228), each with its call of
  \<open>split_files\<close>: the value of \<open>li\<close> for the shuffled sequence \<open>files\<close>.
\<close>

definition ratio_li :: "'r env \<Rightarrow> 'a list \<Rightarrow> real list \<Rightarrow> error + ('a list \<times> string) list" where
  "ratio_li E files ratio =
     ebind (py_index ratio 0) (\<lambda>r0.
       let split_train_idx = py_int (float_mul E r0 (length files)) in
       ebind (py_index ratio 1) (\<lambda>r1.
         let split_val_idx = split_train_idx + py_int (float_mul E r1 (length files))
         in Inr (split_files files split_train_idx split_val_idx (length ratio = 3))))"

definition fixed_li :: "path \<Rightarrow> 'a list \<Rightarrow> int list \<Rightarrow> error + ('a list \<times> string) list" where
  "fixed_li class_dir files fixed =
     (if \<not> int (length files) > sum_list fixed
      then Inl (TooFewSamples (path_stem class_dir) (length files) fixed (sum_list fixed))
      else let split_train_idx = int (length files) - sum_list fixed in
           ebind (py_index fixed 0) (\<lambda>f0.
             let split_val_idx = split_train_idx + f0
             in Inr (split_files files split_train_idx split_val_idx (length fixed = 2))))"

section \<open>The materializer\<close>

text \<open>
  \<open>shutil.copy2\<close> to a file path and into a directory, and \<open>shutil.move\<close> into a
  directory. The destination directory of every call in the source has been created
  just before, so the call with a directory as destination places the file under its
  own name there.
\<close>

definition copy2_file :: "path \<Rightarrow> path \<Rightarrow> filesys \<Rightarrow> error + filesys" where
  "copy2_file src dst fs =
     (case fs src of
        None \<Rightarrow> Inl (FileNotFound src)
      | Some c \<Rightarrow> if src = dst then Inl (SameFile src) else Inr (fs(dst \<mapsto> c)))"

definition copy2_into :: "path \<Rightarrow> path \<Rightarrow> filesys \<Rightarrow> error + filesys" where
  "copy2_into src dir fs = copy2_file src (path_join dir (basename src)) fs"

definition move_into :: "path \<Rightarrow> path \<Rightarrow> filesys \<Rightarrow> error + filesys" where
  "move_into src dir fs =
     (let real_dst = path_join dir (basename src) in
      if fs real_dst \<noteq> None then Inl (DestinationExists real_dst)
      else case fs src of
             None \<Rightarrow> Inl (FileNotFound src)
           | Some c \<Rightarrow> Inr ((fs(src := None))(real_dst \<mapsto> c)))"

text \<open>The inner \<open>for x in f\<close> over the members of a tuple.\<close>

fun transfer_members ::
  "(path \<Rightarrow> path \<Rightarrow> filesys \<Rightarrow> error + filesys) \<Rightarrow> path list \<Rightarrow> path \<Rightarrow> filesys
     \<Rightarrow> error + filesys" where
  "transfer_members transfer [] full_path fs = Inr fs"
| "transfer_members transfer (x # xs) full_path fs =
     (case transfer x full_path fs of
        Inl e \<Rightarrow> Inl e
      | Inr fs' \<Rightarrow> transfer_members transfer xs full_path fs')"

text \<open>
  The loop under \<open># check list\<close> (lines 300 to 304 and 336 to 340):
  \<open>for f in files\<close> with \<open>files.remove(f)\<close> in its body. The iterator of a Python
  list is an index into the list as it is at that moment: it yields \<open>files[i]\<close>
  while \<open>i < len(files)\<close> and then moves to \<open>i + 1\<close>, also after an element has
  been removed. The result is the list that is left, and the file system.
\<close>

function check_list ::
  "(path \<Rightarrow> path \<Rightarrow> filesys \<Rightarrow> error + filesys) \<Rightarrow> nat \<Rightarrow> entry list \<Rightarrow> path \<Rightarrow> filesys
     \<Rightarrow> error + (entry list \<times> filesys)" where
  "check_list transfer i files full_path fs =
     (if i < length files
      then (case files ! i of
              Group xs \<Rightarrow>
                (case transfer_members transfer xs full_path fs of
                   Inl e \<Rightarrow> Inl e
                 | Inr fs' \<Rightarrow>
                     check_list transfer (Suc i) (remove1 (files ! i) files) full_path fs')
            | File p \<Rightarrow> check_list transfer (Suc i) files full_path fs)
      else Inr (files, fs))"
  by pat_completeness auto
termination
  by (relation "measure (\<lambda>(transfer, i, files, full_path, fs). length files - i)")
     (auto simp: length_remove1)

declare check_list.simps [simp del]

text \<open>
  \<open>_copy\<close> (lines 273 to 287) and \<open>_move\<close> (lines 322 to 323), the workers.
  On a tuple, \<open>f.split\<close> raises \<open>AttributeError\<close> and \<open>shutil.move\<close> raises
  \<open>TypeError\<close>.
\<close>

definition copy_worker :: "entry \<Rightarrow> string \<Rightarrow> path \<Rightarrow> filesys \<Rightarrow> error + filesys" where
  "copy_worker f class_name full_path fs =
     (case f of
        Group xs \<Rightarrow> Inl AttributeError
      | File p \<Rightarrow>
          (let class_name_with_separator = [sep] @ class_name @ [sep];
               file_relative_path = split_last p class_name_with_separator
           in if file_relative_path \<noteq> []
              then (let dest_path = path_join full_path file_relative_path
                    in copy2_file p dest_path fs)
              else copy2_into p full_path fs))"

definition move_worker :: "entry \<Rightarrow> path \<Rightarrow> filesys \<Rightarrow> error + filesys" where
  "move_worker f full_path fs =
     (case f of Group xs \<Rightarrow> Inl MoveTypeError | File p \<Rightarrow> move_into p full_path fs)"

text \<open>
  \<open>thread_map\<close>: the jobs run in the order of the list, and the first exception
  is the one the caller sees. With more than one worker the source runs the jobs
  concurrently; the interleaving is not modelled.
\<close>

fun thread_map ::
  "(entry \<Rightarrow> filesys \<Rightarrow> error + filesys) \<Rightarrow> entry list \<Rightarrow> filesys \<Rightarrow> error + filesys" where
  "thread_map worker [] fs = Inr fs"
| "thread_map worker (j # jobs) fs =
     (case worker j fs of Inl e \<Rightarrow> Inl e | Inr fs' \<Rightarrow> thread_map worker jobs fs')"

text \<open>
  \<open>copy_files\<close> (lines 270 to 316) and \<open>move_files\<close> (lines 319 to 351). The
  parameter \<open>max_workers\<close> only sets the number of threads and is left out.
\<close>

fun copy_files ::
  "(entry list \<times> string) list \<Rightarrow> path \<Rightarrow> path \<Rightarrow> filesys \<Rightarrow> error + filesys" where
  "copy_files [] class_dir output fs = Inr fs"
| "copy_files ((files, folder_type) # files_type) class_dir output fs =
     (let class_name = basename class_dir;
          full_path = path_join (path_join output folder_type) class_name
      in case check_list copy2_into 0 files full_path fs of
           Inl e \<Rightarrow> Inl e
         | Inr (jobs, fs1) \<Rightarrow>
             (case thread_map (\<lambda>f. copy_worker f class_name full_path) jobs fs1 of
                Inl e \<Rightarrow> Inl e
              | Inr fs2 \<Rightarrow> copy_files files_type class_dir output fs2))"

fun move_files ::
  "(entry list \<times> string) list \<Rightarrow> path \<Rightarrow> path \<Rightarrow> filesys \<Rightarrow> error + filesys" where
  "move_files [] class_dir output fs = Inr fs"
| "move_files ((files, folder_type) # files_type) class_dir output fs =
     (let class_name = basename class_dir;
          full_path = path_join (path_join output folder_type) class_name
      in case check_list move_into 0 files full_path fs of
           Inl e \<Rightarrow> Inl e
         | Inr (jobs, fs1) \<Rightarrow>
             (case thread_map (\<lambda>f. move_worker f full_path) jobs fs1 of
                Inl e \<Rightarrow> Inl e
              | Inr fs2 \<Rightarrow> move_files files_type class_dir output fs2))"

section \<open>Splitting one class\<close>

text \<open>\<open>split_class_dir_ratio\<close>, lines 197 to 211.\<close>

definition split_class_dir_ratio ::
  "'r env \<Rightarrow> path \<Rightarrow> path \<Rightarrow> real list \<Rightarrow> int \<Rightarrow> bool \<Rightarrow> int option \<Rightarrow> 'r state
     \<Rightarrow> error + 'r state" where
  "split_class_dir_ratio E class_dir output ratio seed move group_prefix s =
     ebind (setup_files E class_dir seed group_prefix s) (\<lambda>(files, s1).
     ebind (ratio_li E files ratio) (\<lambda>li.
     ebind (if move then move_files li class_dir output (fsys s1)
            else copy_files li class_dir output (fsys s1)) (\<lambda>fs.
     Inr (s1\<lparr>fsys := fs\<rparr>))))"

text \<open>\<open>split_class_dir_fixed\<close>, lines 214 to 230; it returns \<open>len(files)\<close>.\<close>

definition split_class_dir_fixed ::
  "'r env \<Rightarrow> path \<Rightarrow> path \<Rightarrow> int list \<Rightarrow> int \<Rightarrow> int option \<Rightarrow> 'r state
     \<Rightarrow> error + (nat \<times> 'r state)" where
  "split_class_dir_fixed E class_dir output fixed seed group_prefix s =
     ebind (setup_files E class_dir seed group_prefix s) (\<lambda>(files, s1).
     ebind (fixed_li class_dir files fixed) (\<lambda>li.
     ebind (copy_files li class_dir output (fsys s1)) (\<lambda>fs.
     Inr (length files, s1\<lparr>fsys := fs\<rparr>))))"

section \<open>Fixed mode and the oversampler\<close>

text \<open>
  The parameter \<open>fixed\<close> of the entry point is an integer or a sequence of integers.
\<close>

datatype fixed_arg = FixedInt int | FixedSeq "int list"

text \<open>The first loop of \<open>fixed\<close> (lines 105 to 117), collecting \<open>lens\<close>.\<close>

fun fixed_classes ::
  "'r env \<Rightarrow> path list \<Rightarrow> path \<Rightarrow> int list \<Rightarrow> int \<Rightarrow> int option \<Rightarrow> 'r state
     \<Rightarrow> error + (nat list \<times> 'r state)" where
  "fixed_classes E [] output fixed seed group_prefix s = Inr ([], s)"
| "fixed_classes E (class_dir # dirs) output fixed seed group_prefix s =
     (case split_class_dir_fixed E class_dir output fixed seed group_prefix s of
        Inl e \<Rightarrow> Inl e
      | Inr (n, s1) \<Rightarrow>
          (case fixed_classes E dirs output fixed seed group_prefix s1 of
             Inl e \<Rightarrow> Inl e
           | Inr (lens, s2) \<Rightarrow> Inr (n # lens, s2)))"

text \<open>
  The inner loop of the oversampler (lines 137 to 141): \<open>for i in range(n)\<close>, here
  with the current \<open>i\<close> and the number of iterations that are left. \<open>f_orig\<close>
  is an answer of the lister, so \<open>f_orig.stem\<close>, \<open>f_orig.suffix\<close> and
  \<open>f_orig.with_name\<close> are attributes read from a \<open>str\<close>.
\<close>

fun duplicate ::
  "'r env \<Rightarrow> path list \<Rightarrow> nat \<Rightarrow> nat \<Rightarrow> 'r state \<Rightarrow> error + 'r state" where
  "duplicate E train_files i 0 s = Inr s"
| "duplicate E train_files i (Suc n) s =
     (case choice E train_files (rng s) of
        Inl e \<Rightarrow> Inl e
      | Inr (f_orig, r) \<Rightarrow>
          ebind (str_attr f_orig) (\<lambda>stem.
          ebind (str_attr f_orig) (\<lambda>suffix.
            let new_name = stem @ ''_'' @ str_nat i @ suffix in
            ebind (str_attr f_orig) (\<lambda>f_dest.
              case copy2_file f_orig f_dest (fsys s) of
                Inl e \<Rightarrow> Inl e
              | Inr fs \<Rightarrow> duplicate E train_files (Suc i) n \<lparr>fsys = fs, rng = r\<rparr>))))"

text \<open>The body of the outer loop (lines 132 to 141), and the loop.\<close>

definition oversample_class ::
  "'r env \<Rightarrow> path \<Rightarrow> nat \<Rightarrow> nat \<times> path \<Rightarrow> 'r state \<Rightarrow> error + 'r state" where
  "oversample_class E output max_len lc s =
     (let class_name = basename (snd lc);
          full_path = path_join (path_join output ''train'') class_name;
          train_files = list_files E (fsys s) full_path
      in duplicate E train_files 0 (max_len - fst lc) s)"

fun oversample_classes ::
  "'r env \<Rightarrow> path \<Rightarrow> nat \<Rightarrow> (nat \<times> path) list \<Rightarrow> 'r state \<Rightarrow> error + 'r state" where
  "oversample_classes E output max_len [] s = Inr s"
| "oversample_classes E output max_len (lc # iteration) s =
     (case oversample_class E output max_len lc s of
        Inl e \<Rightarrow> Inl e
      | Inr s1 \<Rightarrow> oversample_classes E output max_len iteration s1)"

text \<open>\<open>fixed\<close>, lines 88 to 141.\<close>

definition fixed ::
  "'r env \<Rightarrow> path \<Rightarrow> path \<Rightarrow> int \<Rightarrow> fixed_arg \<Rightarrow> bool \<Rightarrow> int option \<Rightarrow> 'r state
     \<Rightarrow> error + 'r state" where
  "fixed E input output seed fixed_param oversample group_prefix s =
     (let fixed = (case fixed_param of FixedInt i \<Rightarrow> [i] | FixedSeq xs \<Rightarrow> xs) in
      if length fixed \<noteq> 1 \<and> length fixed \<noteq> 2 then Inl AssertionError
      else let dirs = list_dirs E (fsys s) input in
           ebind (fixed_classes E dirs output fixed seed group_prefix s) (\<lambda>(lens, s1).
             if \<not> oversample then Inr s1
             else if lens = [] then Inl EmptyMax
             else let max_len = Max (set lens);
                      iteration = zip lens dirs
                  in oversample_classes E output max_len iteration s1))"

section \<open>Reading the outcome of a run\<close>

text \<open>
  What a path holds after a run (nothing when the run raised), and the error a run
  raised.
\<close>

definition read_after :: "path \<Rightarrow> error + 'r state \<Rightarrow> content option" where
  "read_after p res = (case res of Inl e \<Rightarrow> None | Inr s \<Rightarrow> fsys s p)"

definition raised :: "error + 'a \<Rightarrow> error option" where
  "raised res = (case res of Inl e \<Rightarrow> Some e | Inr x \<Rightarrow> None)"

definition file_after :: "path \<Rightarrow> error + filesys \<Rightarrow> content option" where
  "file_after p res = (case res of Inl e \<Rightarrow> None | Inr fs \<Rightarrow> fs p)"

section \<open>A concrete environment for the examples\<close>

text \<open>
  A small environment in which the definitions above can be run: the class
  directories are given, a directory lists the paths of \<open>universe\<close> that exist
  beneath it, in the order of \<open>universe\<close>; the generator's state is a counter,
  the shuffle reverses the list, a draw below \<open>n\<close> is the counter modulo \<open>n\<close>,
  and the product of floats is exact.
\<close>

definition fixture_env :: "path list \<Rightarrow> path list \<Rightarrow> nat env" where
  "fixture_env universe dirs =
     \<lparr> list_dirs = (\<lambda>fs d. dirs),
       list_files = (\<lambda>fs d. filter (\<lambda>p. fs p \<noteq> None \<and> prefix (d @ [sep]) p) universe),
       seed_rng = (\<lambda>seed. 0),
       shuffle_rng = (\<lambda>r xs. (rev xs, Suc r)),
       randbelow = (\<lambda>r n. (r mod n, Suc r)),
       float_mul = (\<lambda>r n. r * real n) \<rparr>"

text \<open>
  A data set of two classes, \<open>a\<close> with three files and \<open>b\<close> with two, and the
  paths the examples look at.
\<close>

definition demo_paths :: "path list" where
  "demo_paths =
     [''i/a/1.png'', ''i/a/2.png'', ''i/a/3.png'', ''i/b/1.png'', ''i/b/2.png'',
      ''o/train/a/1.png'', ''o/train/a/2.png'', ''o/train/a/3.png'',
      ''o/val/a/1.png'', ''o/val/a/2.png'', ''o/val/a/3.png'',
      ''o/train/b/1.png'', ''o/train/b/2.png'', ''o/val/b/1.png'', ''o/val/b/2.png'']"

definition demo_fs :: filesys where
  "demo_fs =
     [''i/a/1.png'' \<mapsto> ''A1'', ''i/a/2.png'' \<mapsto> ''A2'', ''i/a/3.png'' \<mapsto> ''A3'',
      ''i/b/1.png'' \<mapsto> ''B1'', ''i/b/2.png'' \<mapsto> ''B2'']"

definition demo_env :: "nat env" where
  "demo_env = fixture_env demo_paths [''i/a'', ''i/b'']"

text \<open>
  A class of four pairs, named so that the grouper pairs \<open>pN_a\<close> with \<open>pN_b\<close>,
  and a class with a file in a nested directory.
\<close>

definition pairs_listing :: "path list" where
  "pairs_listing =
     [''i/c/p1_a.png'', ''i/c/p1_b.png'', ''i/c/p2_a.png'', ''i/c/p2_b.png'',
      ''i/c/p3_a.png'', ''i/c/p3_b.png'', ''i/c/p4_a.png'', ''i/c/p4_b.png'']"

definition pairs_env :: "nat env" where
  "pairs_env = fixture_env pairs_listing [''i/c'']"

definition pairs_state :: "nat state" where
  "pairs_state =
     \<lparr>fsys = [''i/c/p1_a.png'' \<mapsto> ''1a'', ''i/c/p1_b.png'' \<mapsto> ''1b'',
              ''i/c/p2_a.png'' \<mapsto> ''2a'', ''i/c/p2_b.png'' \<mapsto> ''2b'',
              ''i/c/p3_a.png'' \<mapsto> ''3a'', ''i/c/p3_b.png'' \<mapsto> ''3b'',
              ''i/c/p4_a.png'' \<mapsto> ''4a'', ''i/c/p4_b.png'' \<mapsto> ''4b''],
      rng = 0\<rparr>"

definition nested_state :: "nat state" where
  "nested_state = \<lparr>fsys = [''i/c/sub/x.png'' \<mapsto> ''X'', ''i/c/y.png'' \<mapsto> ''Y''], rng = 0\<rparr>"

section \<open>The prefix grouper: every file in exactly one group of the requested size\<close>

lemma shrink_Inr:
  "shrink n files rs k f p = Inr g \<Longrightarrow>
     \<exists>q. g = f # matches files rs f q \<and> int (length (matches files rs f q)) = k - 1"
  by (induction n arbitrary: p) (auto simp: Let_def split: if_splits)

lemma shrink_Inl: "shrink n files rs k f p = Inl e \<Longrightarrow> grouping_error e"
  by (induction n arbitrary: p) (auto simp: Let_def grouping_error_def split: if_splits)

lemma set_matches: "set (matches files rs f q) \<subseteq> {x \<in> set files. basename x \<notin> rs \<and> basename x \<noteq> basename f}"
  by (auto simp: matches_def)

lemma group_loop_Inl:
  "group_loop files k fs acc = Inl e \<Longrightarrow> grouping_error e"
proof (induction fs arbitrary: acc)
  case Nil then show ?case by simp
next
  case (Cons f fs)
  obtain res rs where acc: "acc = (res, rs)" by (cases acc)
  show ?case using Cons.prems Cons.IH unfolding acc
    by (auto split: if_splits sum.splits dest: shrink_Inl)
qed

lemma grouped_ok_step:
  assumes ok: "grouped_ok files k (res, rs)" and f: "f \<in> set files" "basename f \<notin> rs"
    and g: "g = f # matches files rs f q" "int (length (matches files rs f q)) = k - 1"
  shows "grouped_ok files k (res @ [g], rs \<union> set (map basename g))"
proof -
  let ?ms = "matches files rs f q"
  have sub: "set ?ms \<subseteq> {x \<in> set files. basename x \<notin> rs \<and> basename x \<noteq> basename f}"
    by (rule set_matches)
  have 1: "rs \<union> set (map basename g) = basename ` set (concat (res @ [g]))"
    using ok by (auto simp: grouped_ok_def)
  have 2: "set (concat (res @ [g])) \<subseteq> set files"
    using ok f sub g by (auto simp: grouped_ok_def)
  have 3: "\<forall>h\<in>set (res @ [g]). int (length h) = k"
    using ok g by (auto simp: grouped_ok_def)
  have 4: "distinct (concat (res @ [g]))" if d: "distinct files" "inj_on basename (set files)"
  proof -
    have dres: "distinct (concat res)" using ok d by (simp add: grouped_ok_def)
    have dms: "distinct ?ms" using d by (simp add: matches_def)
    have fms: "f \<notin> set ?ms" using sub by auto
    have disj: "set (concat res) \<inter> set g = {}"
    proof -
      have "basename x \<in> rs" if "x \<in> set (concat res)" for x
        using ok that by (auto simp: grouped_ok_def)
      then show ?thesis using sub f g by auto
    qed
    show ?thesis using dres dms fms disj g by simp
  qed
  show ?thesis unfolding grouped_ok_def using 1 2 3 4 by simp
qed

lemma group_loop_ok:
  "group_loop files k fs acc = Inr acc' \<Longrightarrow> set fs \<subseteq> set files \<Longrightarrow>
     grouped_ok files k acc \<Longrightarrow> grouped_ok files k acc'"
proof (induction fs arbitrary: acc)
  case Nil then show ?case by simp
next
  case (Cons f fs)
  obtain res rs where acc: "acc = (res, rs)" by (cases acc)
  show ?case
  proof (cases "basename f \<in> rs")
    case True
    then show ?thesis using Cons acc by simp
  next
    case False
    then obtain g where sh: "shrink (length (basename f)) files rs k f (basename f) = Inr g"
      and rest: "group_loop files k fs (res @ [g], rs \<union> set (map basename g)) = Inr acc'"
      using Cons.prems(1) acc by (auto split: sum.splits)
    from shrink_Inr [OF sh] obtain q where
      g: "g = f # matches files rs f q" "int (length (matches files rs f q)) = k - 1" by blast
    have "grouped_ok files k (res @ [g], rs \<union> set (map basename g))"
      using grouped_ok_step [OF _ _ False g] Cons.prems acc by simp
    then show ?thesis using Cons.IH [OF rest] Cons.prems(2) by simp
  qed
qed

lemma group_by_prefix_Inr:
  assumes "group_by_prefix files k = Inr groups"
  shows "(\<forall>g\<in>set groups. int (length g) = k) \<and> distinct files \<and> mset (concat groups) = mset files"
proof -
  from assms obtain rs where loop: "group_loop files k files ([], {}) = Inr (groups, rs)"
    and card: "card rs = length files"
    by (auto simp: group_by_prefix_def split: sum.splits prod.splits if_splits)
  have ok: "grouped_ok files k (groups, rs)"
    using group_loop_ok [OF loop] by (simp add: grouped_ok_def)
  then have rs: "rs = basename ` set (concat groups)" and sub: "set (concat groups) \<subseteq> set files"
    and len: "\<forall>g\<in>set groups. int (length g) = k"
    by (simp_all add: grouped_ok_def)
  have rs_sub: "rs \<subseteq> basename ` set files" using rs sub by auto
  have c1: "card rs \<le> card (basename ` set files)" using rs_sub by (simp add: card_mono)
  have c2: "card (basename ` set files) \<le> card (set files)" by (simp add: card_image_le)
  have c3: "card (set files) \<le> length files" by (rule card_length)
  have d: "distinct files" using c1 c2 c3 card by (simp add: card_distinct)
  have inj: "inj_on basename (set files)" using c1 c2 c3 card by (simp add: eq_card_imp_inj_on)
  have rs_eq: "rs = basename ` set files" using rs_sub c1 c2 c3 card by (simp add: card_subset_eq)
  have dg: "distinct (concat groups)" using ok d inj by (simp add: grouped_ok_def)
  have "set files \<subseteq> set (concat groups)"
  proof
    fix x assume x: "x \<in> set files"
    then have "basename x \<in> basename ` set (concat groups)" using rs rs_eq by auto
    then obtain y where y: "y \<in> set (concat groups)" "basename y = basename x"
      unfolding image_iff by metis
    then have "y = x" using inj x sub by (auto dest: inj_onD)
    then show "x \<in> set (concat groups)" using y by simp
  qed
  then have "set (concat groups) = set files" using sub by auto
  then have "mset (concat groups) = mset files"
    using dg d set_eq_iff_mset_eq_distinct [of "concat groups" files] by blast
  then show ?thesis using len d by simp
qed


lemma take_butlast_shift: "take (length p - Suc i) (butlast p) = take (length p - Suc i) p"
  by (simp add: butlast_conv_take min_def)

lemma shrink_too_many:
  "j < n \<Longrightarrow>
   \<forall>i<j. int (length (matches files rs f (take (length p - i) p))) < k - 1 \<Longrightarrow>
   k - 1 < int (length (matches files rs f (take (length p - j) p))) \<Longrightarrow>
   shrink n files rs k f p =
     Inl (UnequalPairs f (k - 1) (length (matches files rs f (take (length p - j) p))))"
proof (induction n arbitrary: p j)
  case 0 then show ?case by simp
next
  case (Suc n)
  show ?case
  proof (cases j)
    case 0
    then show ?thesis using Suc.prems by (simp add: Let_def)
  next
    case (Suc j')
    have here: "int (length (matches files rs f p)) < k - 1"
      using Suc.prems(2) Suc by force
    have a: "j' < n" using Suc.prems(1) Suc by simp
    have b: "\<forall>i<j'. int (length (matches files rs f (take (length (butlast p) - i) (butlast p)))) < k - 1"
      using Suc.prems(2) Suc by (simp add: take_butlast_shift)
    have c: "k - 1 < int (length (matches files rs f (take (length (butlast p) - j') (butlast p))))"
      using Suc.prems(3) Suc by (simp add: take_butlast_shift)
    show ?thesis using here Suc.IH [OF a b c] Suc
      by (simp add: Let_def take_butlast_shift)
  qed
qed

lemma shrink_exhausted:
  "\<forall>i<n. int (length (matches files rs f (take (length p - i) p))) < k - 1 \<Longrightarrow>
   shrink n files rs k f p = Inl (NoAdequateMatches f)"
proof (induction n arbitrary: p)
  case 0 then show ?case by simp
next
  case (Suc n)
  have here: "int (length (matches files rs f p)) < k - 1"
    using Suc.prems by force
  have b: "\<forall>i<n. int (length (matches files rs f (take (length (butlast p) - i) (butlast p)))) < k - 1"
    using Suc.prems by (simp add: take_butlast_shift)
  show ?case using here Suc.IH [OF b] by (simp add: Let_def)
qed

lemma group_loop_append:
  "group_loop files k (pre @ post) acc =
     ebind (group_loop files k pre acc) (group_loop files k post)"
proof (induction pre arbitrary: acc)
  case Nil then show ?case by (simp add: ebind_def)
next
  case (Cons f pre)
  obtain res rs where acc: "acc = (res, rs)" by (cases acc)
  show ?case unfolding acc using Cons.IH
    by (simp add: ebind_def split: sum.splits)
qed

lemma group_by_prefix_raises_at:
  assumes "files = pre @ f # post" "group_loop files k pre ([], {}) = Inr (res, rs)"
    "basename f \<notin> rs" "shrink (length (basename f)) files rs k f (basename f) = Inl e"
  shows "group_by_prefix files k = Inl e"
proof -
  have "group_loop files k (pre @ f # post) ([], {}) = Inl e"
    using assms(2-4) by (simp add: group_loop_append ebind_def)
  then show ?thesis using assms(1) by (simp add: group_by_prefix_def)
qed


text \<open>
  Claim C4. For every list of files and every group size \<open>k \<ge> 2\<close>,
  \<open>group_by_prefix\<close> either returns groups that all have exactly \<open>k\<close> members
  and in which every input file occurs exactly once (the input has no repeated file
  and the concatenation of the groups is a permutation of it), or it raises one of
  its three grouping errors. It raises the first one when the outer loop has reached
  a file \<open>f\<close> that is not grouped yet and, after \<open>j\<close> shortenings of the candidate
  prefix with too few matches, more than \<open>k - 1\<close> other ungrouped files share the
  prefix; the second one when every prefix of the name of \<open>f\<close>, down to its first
  character, has fewer than \<open>k - 1\<close> matches; and the third one when the loop has
  ended and the number of grouped names differs from the number of input files.
\<close>

theorem group_by_prefix_spec:
  assumes k: "2 \<le> k"
  shows
   "((\<exists>groups. group_by_prefix files k = Inr groups
        \<and> (\<forall>g\<in>set groups. int (length g) = k)
        \<and> distinct files \<and> mset (concat groups) = mset files)
     \<or> (\<exists>e. group_by_prefix files k = Inl e \<and> grouping_error e))
    \<and> (\<forall>pre f post res rs j.
          files = pre @ f # post \<and> group_loop files k pre ([], {}) = Inr (res, rs)
          \<and> basename f \<notin> rs \<and> j < length (basename f)
          \<and> (\<forall>i<j. int (n_matches files rs f i) < k - 1)
          \<and> k - 1 < int (n_matches files rs f j)
          \<longrightarrow> group_by_prefix files k = Inl (UnequalPairs f (k - 1) (n_matches files rs f j)))
    \<and> (\<forall>pre f post res rs.
          files = pre @ f # post \<and> group_loop files k pre ([], {}) = Inr (res, rs)
          \<and> basename f \<notin> rs
          \<and> (\<forall>i<length (basename f). int (n_matches files rs f i) < k - 1)
          \<longrightarrow> group_by_prefix files k = Inl (NoAdequateMatches f))
    \<and> (\<forall>res rs.
          group_loop files k files ([], {}) = Inr (res, rs) \<and> card rs \<noteq> length files
          \<longrightarrow> group_by_prefix files k = Inl (NotEnoughMatches (card rs) (length files)))"
proof (intro conjI allI impI)
  show "(\<exists>groups. group_by_prefix files k = Inr groups
        \<and> (\<forall>g\<in>set groups. int (length g) = k)
        \<and> distinct files \<and> mset (concat groups) = mset files)
     \<or> (\<exists>e. group_by_prefix files k = Inl e \<and> grouping_error e)"
  proof (cases "group_by_prefix files k")
    case (Inl e)
    then have "grouping_error e"
      by (auto simp: group_by_prefix_def grouping_error_def
               split: sum.splits prod.splits if_splits dest: group_loop_Inl)
    then show ?thesis using Inl by simp
  next
    case (Inr groups)
    then show ?thesis using group_by_prefix_Inr [OF Inr] by simp
  qed
next
  fix pre f post res rs j
  assume a: "files = pre @ f # post \<and> group_loop files k pre ([], {}) = Inr (res, rs)
          \<and> basename f \<notin> rs \<and> j < length (basename f)
          \<and> (\<forall>i<j. int (n_matches files rs f i) < k - 1)
          \<and> k - 1 < int (n_matches files rs f j)"
  have "shrink (length (basename f)) files rs k f (basename f)
      = Inl (UnequalPairs f (k - 1) (n_matches files rs f j))"
    unfolding n_matches_def
  proof (rule shrink_too_many)
    show "j < length (basename f)" using a by blast
    show "\<forall>i<j. int (length (matches files rs f
            (take (length (basename f) - i) (basename f)))) < k - 1"
      using a unfolding n_matches_def by blast
    show "k - 1 < int (length (matches files rs f
            (take (length (basename f) - j) (basename f))))"
      using a unfolding n_matches_def by blast
  qed
  then show "group_by_prefix files k = Inl (UnequalPairs f (k - 1) (n_matches files rs f j))"
    using a group_by_prefix_raises_at by blast
next
  fix pre f post res rs
  assume a: "files = pre @ f # post \<and> group_loop files k pre ([], {}) = Inr (res, rs)
          \<and> basename f \<notin> rs
          \<and> (\<forall>i<length (basename f). int (n_matches files rs f i) < k - 1)"
  have "shrink (length (basename f)) files rs k f (basename f) = Inl (NoAdequateMatches f)"
  proof (rule shrink_exhausted)
    show "\<forall>i<length (basename f). int (length (matches files rs f
            (take (length (basename f) - i) (basename f)))) < k - 1"
      using a unfolding n_matches_def by blast
  qed
  then show "group_by_prefix files k = Inl (NoAdequateMatches f)"
    using a group_by_prefix_raises_at by blast
next
  fix res rs
  assume "group_loop files k files ([], {}) = Inr (res, rs) \<and> card rs \<noteq> length files"
  then show "group_by_prefix files k = Inl (NotEnoughMatches (card rs) (length files))"
    by (simp add: group_by_prefix_def)
qed

theorem group_by_prefix_spec_witness:
  "(2::int) \<le> 2
   \<and> (\<exists>groups. group_by_prefix [''c/i1_a.jpg'', ''c/i1_b.jpg'', ''c/i2_a.jpg'', ''c/i2_b.jpg''] 2
          = Inr groups
        \<and> groups = [[''c/i1_a.jpg'', ''c/i1_b.jpg''], [''c/i2_a.jpg'', ''c/i2_b.jpg'']]
        \<and> (\<forall>g\<in>set groups. int (length g) = 2)
        \<and> mset (concat groups)
            = mset [''c/i1_a.jpg'', ''c/i1_b.jpg'', ''c/i2_a.jpg'', ''c/i2_b.jpg''])
   \<and> group_by_prefix [''c/a1'', ''c/a2'', ''c/a3''] 2 = Inl (UnequalPairs ''c/a1'' 1 2)
   \<and> group_by_prefix [''c/a''] 2 = Inl (NoAdequateMatches ''c/a'')
   \<and> group_by_prefix [''x/a1'', ''y/a1'', ''z/a2''] 2 = Inl (NotEnoughMatches 2 3)"
proof -
  have k: "(2::int) \<le> 2" by simp
  let ?F = "[''c/i1_a.jpg'', ''c/i1_b.jpg'', ''c/i2_a.jpg'', ''c/i2_b.jpg'']"
  have run: "group_by_prefix ?F 2
      = Inr [[''c/i1_a.jpg'', ''c/i1_b.jpg''], [''c/i2_a.jpg'', ''c/i2_b.jpg'']]"
    by (simp add: group_by_prefix_def matches_def basename_def sep_def Let_def)
  have 1: "\<exists>groups. group_by_prefix ?F 2 = Inr groups
        \<and> groups = [[''c/i1_a.jpg'', ''c/i1_b.jpg''], [''c/i2_a.jpg'', ''c/i2_b.jpg'']]
        \<and> (\<forall>g\<in>set groups. int (length g) = 2)
        \<and> mset (concat groups) = mset ?F"
    using group_by_prefix_spec [OF k, THEN conjunct1, of ?F] unfolding run by simp
  have 2: "group_by_prefix [''c/a1'', ''c/a2'', ''c/a3''] 2 = Inl (UnequalPairs ''c/a1'' 1 2)"
  proof -
    have "[''c/a1'', ''c/a2'', ''c/a3''] = [] @ ''c/a1'' # [''c/a2'', ''c/a3'']
          \<and> group_loop [''c/a1'', ''c/a2'', ''c/a3''] 2 [] ([], {}) = Inr ([], {})
          \<and> basename ''c/a1'' \<notin> {} \<and> 1 < length (basename ''c/a1'')
          \<and> (\<forall>i<1. int (n_matches [''c/a1'', ''c/a2'', ''c/a3''] {} ''c/a1'' i) < 2 - 1)
          \<and> 2 - 1 < int (n_matches [''c/a1'', ''c/a2'', ''c/a3''] {} ''c/a1'' 1)"
      by (simp add: n_matches_def matches_def basename_def sep_def)
    moreover have "n_matches [''c/a1'', ''c/a2'', ''c/a3''] {} ''c/a1'' 1 = 2"
      by (simp add: n_matches_def matches_def basename_def sep_def)
    ultimately show ?thesis
      using group_by_prefix_spec [OF k, THEN conjunct2, THEN conjunct1, rule_format,
          of "[''c/a1'', ''c/a2'', ''c/a3'']" "[]" "''c/a1''" "[''c/a2'', ''c/a3'']" "[]" "{}" 1]
      by simp
  qed
  have 3: "group_by_prefix [''c/a''] 2 = Inl (NoAdequateMatches ''c/a'')"
  proof -
    have "[''c/a''] = [] @ ''c/a'' # [] \<and> group_loop [''c/a''] 2 [] ([], {}) = Inr ([], {})
          \<and> basename ''c/a'' \<notin> {}
          \<and> (\<forall>i<length (basename ''c/a''). int (n_matches [''c/a''] {} ''c/a'' i) < 2 - 1)"
      by (simp add: n_matches_def matches_def basename_def sep_def)
    then show ?thesis
      by (rule group_by_prefix_spec [OF k, THEN conjunct2, THEN conjunct2, THEN conjunct1,
          rule_format, of "[''c/a'']" "[]" "''c/a''" "[]" "[]" "{}"])
  qed
  have 4: "group_by_prefix [''x/a1'', ''y/a1'', ''z/a2''] 2 = Inl (NotEnoughMatches 2 3)"
  proof -
    have "group_loop [''x/a1'', ''y/a1'', ''z/a2''] 2 [''x/a1'', ''y/a1'', ''z/a2''] ([], {})
            = Inr ([[''x/a1'', ''z/a2'']], {''a1'', ''a2''})
          \<and> card {''a1'', ''a2''} \<noteq> length [''x/a1'', ''y/a1'', ''z/a2'']"
      by (simp add: matches_def basename_def sep_def Let_def insert_commute)
    moreover have "card {''a1'', ''a2''} = 2" by simp
    ultimately show ?thesis
      using group_by_prefix_spec [OF k, THEN conjunct2, THEN conjunct2, THEN conjunct2,
          rule_format, of "[''x/a1'', ''y/a1'', ''z/a2'']" "[[''x/a1'', ''z/a2'']]" "{''a1'', ''a2''}"]
      by simp
  qed
  show ?thesis using k 1 2 3 4 by blast
qed

section \<open>Slicing the shuffled sequence\<close>

text \<open>
  With indices that are not negative, the slices of \<open>split_files\<close> are
  \<open>take\<close> and \<open>drop\<close>.
\<close>

lemma py_slice_to: "0 \<le> a \<Longrightarrow> py_slice xs None (Some a) = take (nat a) xs"
  by (simp add: py_slice_def py_clamp_def min_def Let_def)

lemma py_slice_from: "0 \<le> a \<Longrightarrow> py_slice xs (Some a) None = drop (nat a) xs"
  by (simp add: py_slice_def py_clamp_def min_def Let_def)

lemma py_slice_between:
  "0 \<le> a \<Longrightarrow> a \<le> b \<Longrightarrow> py_slice xs (Some a) (Some b) = take (nat b - nat a) (drop (nat a) xs)"
  by (auto simp: py_slice_def py_clamp_def min_def Let_def)

lemma split_files_nonneg:
  assumes "0 \<le> a" "a \<le> b"
  shows "split_files xs a b use_test =
     (if use_test
      then [(take (nat a) xs, ''train''), (take (nat b - nat a) (drop (nat a) xs), ''val''),
            (drop (nat b) xs, ''test'')]
      else [(take (nat a) xs, ''train''), (drop (nat a) xs, ''val'')])"
  using assms by (simp add: split_files_def py_slice_to py_slice_from py_slice_between)

lemma take_drop_partition:
  "a \<le> b \<Longrightarrow> take a xs @ take (b - a) (drop a xs) @ drop b xs = xs"
proof -
  assume "a \<le> b"
  then have "drop b xs = drop (b - a) (drop a xs)" by simp
  then show ?thesis by (metis append_take_drop_id)
qed

lemma py_int_nonneg: "0 \<le> x \<Longrightarrow> py_int x = \<lfloor>x\<rfloor>"
  by (simp add: py_int_def)

text \<open>The value of li for non-negative products, as a function of the two floors.\<close>

lemma ratio_li_value:
  assumes l0: "1 < length ratio"
    and x: "0 \<le> float_mul E (ratio ! 0) (length files)" "0 \<le> float_mul E (ratio ! 1) (length files)"
  shows "ratio_li E files ratio =
     Inr (split_files files \<lfloor>float_mul E (ratio ! 0) (length files)\<rfloor>
            (\<lfloor>float_mul E (ratio ! 0) (length files)\<rfloor> + \<lfloor>float_mul E (ratio ! 1) (length files)\<rfloor>)
            (length ratio = 3))"
proof -
  have "ratio \<noteq> []" using l0 by auto
  then have idx: "py_index ratio 0 = Inr (ratio ! 0)" "py_index ratio 1 = Inr (ratio ! 1)"
    using l0 by (simp_all add: py_index_def)
  show ?thesis unfolding ratio_li_def idx ebind_def using x
    by (simp add: py_int_nonneg Let_def)
qed

text \<open>
  Claim C1. In ratio mode, for a ratio of two or three non-negative fractions and a
  class of \<open>N\<close> entries, the shuffled sequence is cut at
  \<open>trainEnd = floor (ratio[0] * N)\<close> and
  \<open>valEnd = trainEnd + floor (ratio[1] * N)\<close>: train is \<open>[0, trainEnd)\<close>;
  with three fractions val is \<open>[trainEnd, valEnd)\<close> and test is \<open>[valEnd, N)\<close>;
  with two fractions val is \<open>[trainEnd, N)\<close> and there is no test subset. The
  subsets, in this order, concatenate to the shuffled sequence, so their lengths sum
  to \<open>N\<close> and they are pairwise disjoint when no entry is repeated; and the last
  subset holds everything the floors leave over. The product is the platform's float
  product \<open>float_mul\<close>, of which only this is used: the product of a
  non-negative fraction and a count is not negative. That the fractions sum to one
  is not needed.
\<close>

theorem ratio_li_slices:
  assumes len: "length ratio = 2 \<or> length ratio = 3"
    and nonneg: "\<forall>r\<in>set ratio. 0 \<le> r"
    and fm: "\<forall>r n. 0 \<le> r \<longrightarrow> 0 \<le> float_mul E r n"
  shows
   "(let N = length files;
         trainEnd = nat \<lfloor>float_mul E (ratio ! 0) N\<rfloor>;
         valEnd = trainEnd + nat \<lfloor>float_mul E (ratio ! 1) N\<rfloor>;
         train = take trainEnd files;
         val = (if length ratio = 3 then take (valEnd - trainEnd) (drop trainEnd files)
                else drop trainEnd files);
         test = drop valEnd files
     in ratio_li E files ratio =
          Inr (if length ratio = 3
               then [(train, ''train''), (val, ''val''), (test, ''test'')]
               else [(train, ''train''), (val, ''val'')])
        \<and> (if length ratio = 3 then train @ val @ test = files else train @ val = files)
        \<and> (if length ratio = 3 then length train + length val + length test
            else length train + length val) = N
        \<and> (distinct files \<longrightarrow> set train \<inter> set val = {}
              \<and> (length ratio = 3 \<longrightarrow> set train \<inter> set test = {} \<and> set val \<inter> set test = {}))
        \<and> (length ratio = 3 \<and> valEnd \<le> N \<longrightarrow>
              length train = nat \<lfloor>float_mul E (ratio ! 0) N\<rfloor>
              \<and> length val = nat \<lfloor>float_mul E (ratio ! 1) N\<rfloor>
              \<and> length test = N - nat \<lfloor>float_mul E (ratio ! 0) N\<rfloor>
                                - nat \<lfloor>float_mul E (ratio ! 1) N\<rfloor>)
        \<and> (length ratio = 2 \<and> trainEnd \<le> N \<longrightarrow>
              length train = nat \<lfloor>float_mul E (ratio ! 0) N\<rfloor>
              \<and> length val = N - nat \<lfloor>float_mul E (ratio ! 0) N\<rfloor>))"
proof -
  define N where "N = length files"
  define x0 where "x0 = float_mul E (ratio ! 0) N"
  define x1 where "x1 = float_mul E (ratio ! 1) N"
  define a where "a = nat \<lfloor>x0\<rfloor>"
  define b where "b = a + nat \<lfloor>x1\<rfloor>"
  define val where "val = (if length ratio = 3 then take (b - a) (drop a files) else drop a files)"
  have l2: "0 < length ratio" "1 < length ratio" using len by auto
  then have "ratio ! 0 \<in> set ratio" "ratio ! 1 \<in> set ratio" by simp_all
  then have x: "0 \<le> x0" "0 \<le> x1" using nonneg fm by (simp_all add: x0_def x1_def)
  then have fl: "0 \<le> \<lfloor>x0\<rfloor>" "\<lfloor>x0\<rfloor> \<le> \<lfloor>x0\<rfloor> + \<lfloor>x1\<rfloor>" by simp_all
  have nb: "nat (\<lfloor>x0\<rfloor> + \<lfloor>x1\<rfloor>) = b" "nat \<lfloor>x0\<rfloor> = a"
    using x by (simp_all add: a_def b_def nat_add_distrib)
  have "ratio_li E files ratio = Inr (split_files files \<lfloor>x0\<rfloor> (\<lfloor>x0\<rfloor> + \<lfloor>x1\<rfloor>) (length ratio = 3))"
    unfolding x0_def x1_def N_def using l2(2) x unfolding x0_def x1_def N_def
    by (rule ratio_li_value)
  then have c1: "ratio_li E files ratio =
     Inr (if length ratio = 3
      then [(take a files, ''train''), (val, ''val''), (drop b files, ''test'')]
      else [(take a files, ''train''), (val, ''val'')])"
    unfolding split_files_nonneg [OF fl] nb val_def by simp
  have ab: "a \<le> b" by (simp add: b_def)
  have part: "take a files @ take (b - a) (drop a files) @ drop b files = files"
    using ab by (rule take_drop_partition)
  have c2: "(if length ratio = 3 then take a files @ val @ drop b files = files
             else take a files @ val = files)"
    using part by (simp add: val_def)
  have c3: "(if length ratio = 3 then length (take a files) + length val + length (drop b files)
             else length (take a files) + length val) = N"
  proof (cases "length ratio = 3")
    case True
    then show ?thesis using arg_cong [OF part, of length] by (simp add: N_def val_def)
  next
    case False
    have "length (take a files @ drop a files) = N" unfolding append_take_drop_id N_def ..
    then show ?thesis using False by (simp add: val_def)
  qed
  have c4: "distinct files \<longrightarrow> set (take a files) \<inter> set val = {}
        \<and> (length ratio = 3 \<longrightarrow> set (take a files) \<inter> set (drop b files) = {}
              \<and> set val \<inter> set (drop b files) = {})"
  proof
    assume d: "distinct files"
    then have d3: "distinct (take a files @ take (b - a) (drop a files) @ drop b files)"
      using part by simp
    have d2: "distinct (take a files @ drop a files)"
      using d by (simp only: append_take_drop_id)
    have e1: "set (take a files) \<inter> set (drop a files) = {}"
      using d2 by (simp only: distinct_append)
    have e2: "set (take a files) \<inter> set (take (b - a) (drop a files)) = {}"
      using d3 by auto
    have e3: "set (take a files) \<inter> set (drop b files) = {}"
      using d3 by auto
    have e4: "set (take (b - a) (drop a files)) \<inter> set (drop b files) = {}"
      using d3 by auto
    show "set (take a files) \<inter> set val = {}
        \<and> (length ratio = 3 \<longrightarrow> set (take a files) \<inter> set (drop b files) = {}
              \<and> set val \<inter> set (drop b files) = {})"
      using e1 e2 e3 e4 by (simp add: val_def)
  qed
  have c5: "length ratio = 3 \<and> b \<le> N \<longrightarrow>
              length (take a files) = a \<and> length val = nat \<lfloor>x1\<rfloor>
              \<and> length (drop b files) = N - a - nat \<lfloor>x1\<rfloor>"
    by (auto simp: N_def a_def b_def val_def)
  have c6: "length ratio = 2 \<and> a \<le> N \<longrightarrow>
              length (take a files) = a \<and> length val = N - a"
    by (auto simp: N_def a_def val_def)
  show ?thesis
    unfolding Let_def N_def [symmetric] x0_def [symmetric] x1_def [symmetric]
      a_def [symmetric] b_def [symmetric] val_def [symmetric]
    by (intro conjI c1 c2 c3 c4 c5 c6)
qed

theorem ratio_li_slices_witness:
  "ratio_li (fixture_env [] []) [1, 2, 3, 4, 5, 6, 7 :: nat] [0.8, 0.1, 0.1]
     = Inr [([1, 2, 3, 4, 5], ''train''), ([], ''val''), ([6, 7], ''test'')]
   \<and> ratio_li (fixture_env [] []) [1, 2, 3, 4, 5, 6, 7 :: nat] [0.5, 0.5]
     = Inr [([1, 2, 3], ''train''), ([4, 5, 6, 7], ''val'')]"
proof -
  have fm: "\<forall>r n. 0 \<le> r \<longrightarrow> 0 \<le> float_mul (fixture_env [] []) r n"
    by (simp add: fixture_env_def)
  have a: "length [0.8, 0.1, 0.1 :: real] = 2 \<or> length [0.8, 0.1, 0.1 :: real] = 3" by simp
  have b: "\<forall>r\<in>set [0.8, 0.1, 0.1 :: real]. 0 \<le> r" by simp
  have a2: "length [0.5, 0.5 :: real] = 2 \<or> length [0.5, 0.5 :: real] = 3" by simp
  have b2: "\<forall>r\<in>set [0.5, 0.5 :: real]. 0 \<le> r" by simp
  have 1: "ratio_li (fixture_env [] []) [1, 2, 3, 4, 5, 6, 7 :: nat] [0.8, 0.1, 0.1]
     = Inr [([1, 2, 3, 4, 5], ''train''), ([], ''val''), ([6, 7], ''test'')]"
    using ratio_li_slices [OF a b fm, of "[1, 2, 3, 4, 5, 6, 7 :: nat]", unfolded Let_def, THEN conjunct1]
    by (simp add: fixture_env_def)
  have 2: "ratio_li (fixture_env [] []) [1, 2, 3, 4, 5, 6, 7 :: nat] [0.5, 0.5]
     = Inr [([1, 2, 3], ''train''), ([4, 5, 6, 7], ''val'')]"
    using ratio_li_slices [OF a2 b2 fm, of "[1, 2, 3, 4, 5, 6, 7 :: nat]", unfolded Let_def, THEN conjunct1]
    by (simp add: fixture_env_def)
  show ?thesis using 1 2 by simp
qed

section \<open>Fixed mode\<close>

lemma path_stem_no_dot:
  assumes "CHR ''.'' \<notin> set (basename p)"
  shows "path_stem p = basename p"
proof -
  have "takeWhile (\<lambda>c. c \<noteq> CHR ''.'') (rev (basename p)) = rev (basename p)"
    using assms by (intro takeWhile_eq_all_conv [THEN iffD2]) auto
  then have "length (takeWhile (\<lambda>c. c \<noteq> CHR ''.'') (rev (basename p))) = length (basename p)"
    by (simp only: length_rev)
  then have "path_suffix p = []" by (simp add: path_suffix_def Let_def)
  then show ?thesis by (simp add: path_stem_def Let_def)
qed

lemma fixed_li_raises:
  "int (length files) \<le> sum_list counts \<Longrightarrow>
   fixed_li class_dir files counts
     = Inl (TooFewSamples (path_stem class_dir) (length files) counts (sum_list counts))"
  by (simp add: fixed_li_def)

lemma fixed_li_value:
  assumes "sum_list counts < int (length files)" "counts \<noteq> []"
  shows "fixed_li class_dir files counts =
     Inr (split_files files (int (length files) - sum_list counts)
            (int (length files) - sum_list counts + counts ! 0) (length counts = 2))"
  using assms by (simp add: fixed_li_def py_index_def ebind_def Let_def)

text \<open>
  The partitioner in fixed mode, for one or two non-negative counts and a class of
  \<open>N\<close> entries. It raises if and only if \<open>N \<le> sum(fixedCounts)\<close>, and the
  error carries the stem of the class directory (its name, when the name has no dot),
  \<open>N\<close> and the sum of the counts. When \<open>N > sum(fixedCounts)\<close>, train has
  \<open>N - sum(fixedCounts)\<close> entries, val has \<open>fixedCounts[0]\<close>, and with a second
  count test has \<open>fixedCounts[1]\<close>, the rest; the subsets, in this order,
  concatenate to the shuffled sequence.
\<close>

theorem fixed_li_spec:
  assumes len: "length counts = 1 \<or> length counts = 2"
    and nonneg: "\<forall>c\<in>set counts. 0 \<le> c"
  shows
   "(let N = length files; need = sum_list counts
     in ((\<exists>e. fixed_li class_dir files counts = Inl e) \<longleftrightarrow> int N \<le> need)
      \<and> (int N \<le> need \<longrightarrow>
            fixed_li class_dir files counts
              = Inl (TooFewSamples (path_stem class_dir) N counts need))
      \<and> (CHR ''.'' \<notin> set (basename class_dir) \<longrightarrow> path_stem class_dir = basename class_dir)
      \<and> (need < int N \<longrightarrow>
           (let trainEnd = nat (int N - need);
                train = take trainEnd files;
                val = (if length counts = 2 then take (nat (counts ! 0)) (drop trainEnd files)
                       else drop trainEnd files);
                test = drop (trainEnd + nat (counts ! 0)) files
            in fixed_li class_dir files counts
                 = Inr (if length counts = 2
                        then [(train, ''train''), (val, ''val''), (test, ''test'')]
                        else [(train, ''train''), (val, ''val'')])
               \<and> int (length train) = int N - need
               \<and> int (length val) = counts ! 0
               \<and> (length counts = 2 \<longrightarrow> int (length test) = counts ! 1)
               \<and> (if length counts = 2 then train @ val @ test = files
                   else train @ val = files))))"
proof -
  define N where "N = length files"
  define need where "need = sum_list counts"
  define a where "a = nat (int N - need)"
  define v where "v = nat (counts ! 0)"
  define val where "val = (if length counts = 2 then take v (drop a files) else drop a files)"
  have ne: "counts \<noteq> []" using len by auto
  have f0: "0 \<le> counts ! 0" using nonneg ne by simp
  have sum: "need = (if length counts = 2 then counts ! 0 + counts ! 1 else counts ! 0)"
  proof (cases counts)
    case Nil then show ?thesis using ne by simp
  next
    case (Cons x xs)
    show ?thesis
    proof (cases xs)
      case Nil then show ?thesis using Cons by (simp add: need_def)
    next
      case (Cons y ys)
      then have "ys = []" using len \<open>counts = x # xs\<close> by simp
      then show ?thesis using Cons \<open>counts = x # xs\<close> by (simp add: need_def)
    qed
  qed
  have f1: "length counts = 2 \<Longrightarrow> 0 \<le> counts ! 1" using nonneg by simp
  have need0: "0 \<le> need" using sum f0 f1 by (simp split: if_splits)
  have c1: "(\<exists>e. fixed_li class_dir files counts = Inl e) \<longleftrightarrow> int N \<le> need"
  proof (cases "int N \<le> need")
    case True
    then show ?thesis using fixed_li_raises [of files counts class_dir] by (simp add: N_def need_def)
  next
    case False
    then show ?thesis using fixed_li_value [of counts files class_dir] ne
      by (simp add: N_def need_def)
  qed
  have c2: "int N \<le> need \<longrightarrow>
      fixed_li class_dir files counts = Inl (TooFewSamples (path_stem class_dir) N counts need)"
    using fixed_li_raises [of files counts class_dir] by (simp add: N_def need_def)
  have c3: "CHR ''.'' \<notin> set (basename class_dir) \<longrightarrow> path_stem class_dir = basename class_dir"
    using path_stem_no_dot by blast
  have c4: "need < int N \<longrightarrow>
      fixed_li class_dir files counts
         = Inr (if length counts = 2
                then [(take a files, ''train''), (val, ''val''), (drop (a + v) files, ''test'')]
                else [(take a files, ''train''), (val, ''val'')])
       \<and> int (length (take a files)) = int N - need
       \<and> int (length val) = counts ! 0
       \<and> (length counts = 2 \<longrightarrow> int (length (drop (a + v) files)) = counts ! 1)
       \<and> (if length counts = 2 then take a files @ val @ drop (a + v) files = files
           else take a files @ val = files)"
  proof
    assume lt: "need < int N"
    have i1: "0 \<le> int N - need" "int N - need \<le> int N - need + counts ! 0"
      using lt f0 by simp_all
    have na: "nat (int N - need) = a" "nat (int N - need + counts ! 0) = a + v"
      using lt f0 by (simp_all add: a_def v_def nat_add_distrib)
    have "fixed_li class_dir files counts =
        Inr (split_files files (int N - need) (int N - need + counts ! 0) (length counts = 2))"
      using fixed_li_value [of counts files class_dir] lt ne by (simp add: N_def need_def)
    then have r: "fixed_li class_dir files counts
         = Inr (if length counts = 2
                then [(take a files, ''train''), (val, ''val''), (drop (a + v) files, ''test'')]
                else [(take a files, ''train''), (val, ''val'')])"
      unfolding split_files_nonneg [OF i1] na val_def by simp
    have aN: "a \<le> N" "int a = int N - need" using lt need0 by (simp_all add: a_def)
    have l1: "int (length (take a files)) = int N - need" using aN by (simp add: N_def)
    have dl: "int (length (drop a files)) = need" using aN by (simp add: N_def)
    have l2: "int (length val) = counts ! 0"
    proof (cases "length counts = 2")
      case True
      then have "counts ! 0 \<le> need" using sum f1 by simp
      then have "v \<le> length (drop a files)" using dl f0 by (simp add: v_def)
      then show ?thesis using True f0 by (simp add: val_def v_def)
    next
      case False
      then show ?thesis using dl sum by (simp add: val_def)
    qed
    have l3: "length counts = 2 \<longrightarrow> int (length (drop (a + v) files)) = counts ! 1"
    proof
      assume t: "length counts = 2"
      have "int (a + v) = int N - counts ! 1" using aN sum t f0 by (simp add: v_def)
      moreover have "0 \<le> counts ! 1" using f1 t by simp
      ultimately show "int (length (drop (a + v) files)) = counts ! 1" by (simp add: N_def)
    qed
    have p: "take a files @ take (a + v - a) (drop a files) @ drop (a + v) files = files"
      by (rule take_drop_partition) simp
    have l4: "(if length counts = 2 then take a files @ val @ drop (a + v) files = files
           else take a files @ val = files)"
      using p by (simp add: val_def)
    show "fixed_li class_dir files counts
         = Inr (if length counts = 2
                then [(take a files, ''train''), (val, ''val''), (drop (a + v) files, ''test'')]
                else [(take a files, ''train''), (val, ''val'')])
       \<and> int (length (take a files)) = int N - need
       \<and> int (length val) = counts ! 0
       \<and> (length counts = 2 \<longrightarrow> int (length (drop (a + v) files)) = counts ! 1)
       \<and> (if length counts = 2 then take a files @ val @ drop (a + v) files = files
           else take a files @ val = files)"
      by (intro conjI r l1 l2 l3 l4)
  qed
  show ?thesis
    unfolding Let_def N_def [symmetric] need_def [symmetric] a_def [symmetric]
      v_def [symmetric] val_def [symmetric]
    by (intro conjI c1 c2 c3 c4)
qed


theorem fixed_li_spec_witness:
  "fixed_li ''in/cats'' (replicate 250 (0::nat)) [100, 100]
     = Inr [(replicate 50 0, ''train''), (replicate 100 0, ''val''), (replicate 100 0, ''test'')]
   \<and> fixed_li ''in/cats'' (replicate 150 (0::nat)) [100, 100]
     = Inl (TooFewSamples ''cats'' 150 [100, 100] 200)
   \<and> fixed_li ''in/cats'' [1, 2, 3, 4, 5 :: nat] [2]
     = Inr [([1, 2, 3], ''train''), ([4, 5], ''val'')]"
proof -
  have a: "length [100, 100 :: int] = 1 \<or> length [100, 100 :: int] = 2" by simp
  have b: "\<forall>c\<in>set [100, 100 :: int]. 0 \<le> c" by simp
  have a1: "length [2 :: int] = 1 \<or> length [2 :: int] = 2" by simp
  have b1: "\<forall>c\<in>set [2 :: int]. 0 \<le> c" by simp
  have stem: "path_stem ''in/cats'' = ''cats''"
    by (simp add: path_stem_def path_suffix_def basename_def sep_def Let_def)
  have 1: "fixed_li ''in/cats'' (replicate 250 (0::nat)) [100, 100]
     = Inr [(replicate 50 0, ''train''), (replicate 100 0, ''val''), (replicate 100 0, ''test'')]"
    using fixed_li_spec [OF a b, of "replicate 250 (0::nat)" "''in/cats''", unfolded Let_def,
        THEN conjunct2, THEN conjunct2, THEN conjunct2]
    by simp
  have 2: "fixed_li ''in/cats'' (replicate 150 (0::nat)) [100, 100]
     = Inl (TooFewSamples ''cats'' 150 [100, 100] 200)"
    using fixed_li_spec [OF a b, of "replicate 150 (0::nat)" "''in/cats''", unfolded Let_def,
        THEN conjunct2, THEN conjunct1]
    by (simp add: stem)
  have 3: "fixed_li ''in/cats'' [1, 2, 3, 4, 5 :: nat] [2]
     = Inr [([1, 2, 3], ''train''), ([4, 5], ''val'')]"
    using fixed_li_spec [OF a1 b1, of "[1, 2, 3, 4, 5 :: nat]" "''in/cats''", unfolded Let_def,
        THEN conjunct2, THEN conjunct2, THEN conjunct2]
    by simp
  show ?thesis using 1 2 3 by simp
qed

text \<open>
  Claim C3 fails in the message of the error. The message interpolates
  \<open>class_dir.stem\<close>, the name of the class directory cut at its last dot, where the
  materializer and the oversampler name the class by \<open>path.split(class_dir)[1]\<close>,
  the whole name. For the class \<open>cats.v1\<close> with 150 entries and the counts
  (100, 100) the error names the class \<open>cats\<close>; the files of that class go to
  \<open>o/train/cats.v1\<close>.
\<close>

theorem fixed_li_message_names_stem:
  "fixed_li ''in/cats.v1'' (replicate 150 (0::nat)) [100, 100]
     = Inl (TooFewSamples ''cats'' 150 [100, 100] 200)
   \<and> basename ''in/cats.v1'' = ''cats.v1''
   \<and> path_join (path_join ''o'' ''train'') (basename ''in/cats.v1'') = ''o/train/cats.v1''"
  by code_simp

section \<open>The oversampler\<close>

text \<open>
  An iteration of the inner loop draws a file of the listing and then reads its
  \<open>stem\<close>: it raises, \<open>IndexError\<close> from the draw or \<open>AttributeError\<close> from
  the attribute, and the copy is never reached.
\<close>

lemma duplicate_Suc:
  "duplicate E tf i (Suc n) s =
     (case choice E tf (rng s) of Inl e \<Rightarrow> Inl e | Inr x \<Rightarrow> Inl AttributeError)"
  by (simp add: str_attr_def ebind_def split: sum.splits prod.splits)


lemma choice_error: "choice E tf r = Inl e \<Longrightarrow> e = IndexError"
  by (auto simp: choice_def Let_def split: if_splits prod.splits)

lemma choice_ok:
  "tf \<noteq> [] \<Longrightarrow> fst (randbelow E r (length tf)) < length tf \<Longrightarrow> \<exists>x. choice E tf r = Inr x"
  by (auto simp: choice_def Let_def split: prod.splits)

lemma duplicate_Inr: "duplicate E tf i n s = Inr s' \<Longrightarrow> n = 0 \<and> s' = s"
proof (cases n)
  case 0
  assume "duplicate E tf i n s = Inr s'"
  then show ?thesis using 0 by simp
next
  case (Suc m)
  assume "duplicate E tf i n s = Inr s'"
  then have "(case choice E tf (rng s) of Inl e \<Rightarrow> Inl e | Inr x \<Rightarrow> Inl AttributeError) = Inr s'"
    unfolding Suc duplicate_Suc .
  then show ?thesis by (cases "choice E tf (rng s)") simp_all
qed

text \<open>
  Claim C7 fails in the oversampler. For a class whose total \<open>len\<close> is below
  \<open>max_len\<close>, the oversampler raises: \<open>AttributeError\<close> at \<open>f_orig.stem\<close>
  when the train directory lists a file and the draw is in range, \<open>IndexError\<close>
  from \<open>random.choice\<close> otherwise. It returns only for a class with no copy due,
  and then the state is as it was: no duplicate is written for any class.
\<close>

theorem oversample_raises:
  "(len < max_len
      \<and> list_files E (fsys s) (path_join (path_join output ''train'') (basename class_dir)) \<noteq> []
      \<and> fst (randbelow E (rng s)
              (length (list_files E (fsys s)
                         (path_join (path_join output ''train'') (basename class_dir)))))
           < length (list_files E (fsys s)
                         (path_join (path_join output ''train'') (basename class_dir)))
      \<longrightarrow> oversample_class E output max_len (len, class_dir) s = Inl AttributeError)
   \<and> (len < max_len
      \<longrightarrow> oversample_class E output max_len (len, class_dir) s = Inl AttributeError
          \<or> oversample_class E output max_len (len, class_dir) s = Inl IndexError)
   \<and> (oversample_class E output max_len (len, class_dir) s = Inr s' \<longrightarrow> max_len \<le> len \<and> s' = s)"
proof -
  define pool where
    "pool = list_files E (fsys s) (path_join (path_join output ''train'') (basename class_dir))"
  have d: "oversample_class E output max_len (len, class_dir) s
            = duplicate E pool 0 (max_len - len) s"
    by (simp add: oversample_class_def Let_def pool_def)
  have 1: "oversample_class E output max_len (len, class_dir) s = Inl AttributeError"
    if a: "len < max_len \<and> pool \<noteq> [] \<and> fst (randbelow E (rng s) (length pool)) < length pool"
  proof -
    obtain m where m: "max_len - len = Suc m" using a by (cases "max_len - len") auto
    have ne: "pool \<noteq> []" and lt: "fst (randbelow E (rng s) (length pool)) < length pool"
      using a by simp_all
    have "\<exists>x. choice E pool (rng s) = Inr x" using ne lt by (rule choice_ok)
    then obtain x where x: "choice E pool (rng s) = Inr x" ..
    show ?thesis unfolding d m duplicate_Suc x by simp
  qed
  have 2: "oversample_class E output max_len (len, class_dir) s = Inl AttributeError
          \<or> oversample_class E output max_len (len, class_dir) s = Inl IndexError"
    if a: "len < max_len"
  proof -
    obtain m where m: "max_len - len = Suc m" using a by (cases "max_len - len") auto
    show ?thesis
    proof (cases "choice E pool (rng s)")
      case (Inl e)
      then have "e = IndexError" by (rule choice_error)
      then show ?thesis unfolding d m duplicate_Suc Inl by simp
    next
      case (Inr x)
      show ?thesis unfolding d m duplicate_Suc Inr by simp
    qed
  qed
  have 3: "max_len \<le> len \<and> s' = s"
    if a: "oversample_class E output max_len (len, class_dir) s = Inr s'"
  proof -
    have "max_len - len = 0 \<and> s' = s" using a unfolding d by (rule duplicate_Inr)
    then show ?thesis by simp
  qed
  show ?thesis unfolding pool_def [symmetric]
  proof (intro conjI impI)
    assume "len < max_len \<and> pool \<noteq> [] \<and> fst (randbelow E (rng s) (length pool)) < length pool"
    then show "oversample_class E output max_len (len, class_dir) s = Inl AttributeError" by (rule 1)
  next
    assume "len < max_len"
    then show "oversample_class E output max_len (len, class_dir) s = Inl AttributeError
          \<or> oversample_class E output max_len (len, class_dir) s = Inl IndexError" by (rule 2)
  next
    assume a: "oversample_class E output max_len (len, class_dir) s = Inr s'"
    show "max_len \<le> len" using 3 [OF a] by simp
    show "s' = s" using 3 [OF a] by simp
  qed
qed

theorem oversample_raises_witness:
  "raised (fixed demo_env ''i'' ''o'' 1337 (FixedInt 1) True None \<lparr>fsys = demo_fs, rng = 0\<rparr>)
     = Some AttributeError
   \<and> raised (fixed demo_env ''i'' ''o'' 1337 (FixedInt 1) False None \<lparr>fsys = demo_fs, rng = 0\<rparr>)
     = None
   \<and> oversample_class demo_env ''o'' 3 (2, ''i/b'')
        \<lparr>fsys = [''o/train/b/2.png'' \<mapsto> ''B2'', ''o/val/b/1.png'' \<mapsto> ''B1''], rng = 1\<rparr>
     = Inl AttributeError"
proof -
  let ?U = "\<lparr>fsys = [''o/train/b/2.png'' \<mapsto> ''B2'', ''o/val/b/1.png'' \<mapsto> ''B1''], rng = 1::nat\<rparr>"
  have pool: "list_files demo_env (fsys ?U) (path_join (path_join ''o'' ''train'') (basename ''i/b''))
        = [''o/train/b/2.png'']"
    by code_simp
  have pre: "(2::nat) < 3
      \<and> list_files demo_env (fsys ?U) (path_join (path_join ''o'' ''train'') (basename ''i/b'')) \<noteq> []
      \<and> fst (randbelow demo_env (rng ?U)
              (length (list_files demo_env (fsys ?U)
                         (path_join (path_join ''o'' ''train'') (basename ''i/b'')))))
           < length (list_files demo_env (fsys ?U)
                         (path_join (path_join ''o'' ''train'') (basename ''i/b'')))"
    unfolding pool by (simp add: demo_env_def fixture_env_def)
  have 1: "oversample_class demo_env ''o'' 3 (2, ''i/b'') ?U = Inl AttributeError"
    using oversample_raises [THEN conjunct1, rule_format, OF pre] .
  have 2: "raised (fixed demo_env ''i'' ''o'' 1337 (FixedInt 1) True None \<lparr>fsys = demo_fs, rng = 0\<rparr>)
     = Some AttributeError
   \<and> raised (fixed demo_env ''i'' ''o'' 1337 (FixedInt 1) False None \<lparr>fsys = demo_fs, rng = 0\<rparr>)
     = None"
    by code_simp
  show ?thesis using 1 2 by simp
qed



section \<open>The entry point of fixed mode\<close>

text \<open>
  Claim C10. An integer passed as \<open>fixed\<close> is replaced by the list that holds
  it, before the length is checked: the run is the run with that one-element list.
  With one count, the partitioner raises its error or returns a train and a val
  subset, and no test subset.
\<close>

theorem fixed_int_coerced:
  "fixed E input output seed (FixedInt i) oversample gp s
     = fixed E input output seed (FixedSeq [i]) oversample gp s
   \<and> (fixed_li class_dir files [i]
         = Inl (TooFewSamples (path_stem class_dir) (length files) [i] i)
      \<or> (\<exists>train val. fixed_li class_dir files [i] = Inr [(train, ''train''), (val, ''val'')]))"
proof (intro conjI)
  show "fixed E input output seed (FixedInt i) oversample gp s
     = fixed E input output seed (FixedSeq [i]) oversample gp s"
    by (simp add: fixed_def)
  show "fixed_li class_dir files [i]
         = Inl (TooFewSamples (path_stem class_dir) (length files) [i] i)
      \<or> (\<exists>train val. fixed_li class_dir files [i] = Inr [(train, ''train''), (val, ''val'')])"
    by (simp add: fixed_li_def py_index_def ebind_def split_files_def Let_def)
qed

theorem fixed_int_coerced_witness:
  "read_after ''o/val/a/1.png''
     (fixed demo_env ''i'' ''o'' 1337 (FixedInt 1) False None \<lparr>fsys = demo_fs, rng = 0\<rparr>)
     = Some ''A1''
   \<and> read_after ''o/train/a/3.png''
     (fixed demo_env ''i'' ''o'' 1337 (FixedInt 1) False None \<lparr>fsys = demo_fs, rng = 0\<rparr>)
     = Some ''A3''
   \<and> read_after ''o/test/a/1.png''
     (fixed demo_env ''i'' ''o'' 1337 (FixedInt 1) False None \<lparr>fsys = demo_fs, rng = 0\<rparr>)
     = None"
proof -
  have "read_after ''o/val/a/1.png''
     (fixed demo_env ''i'' ''o'' 1337 (FixedSeq [1]) False None \<lparr>fsys = demo_fs, rng = 0\<rparr>)
     = Some ''A1''
   \<and> read_after ''o/train/a/3.png''
     (fixed demo_env ''i'' ''o'' 1337 (FixedSeq [1]) False None \<lparr>fsys = demo_fs, rng = 0\<rparr>)
     = Some ''A3''
   \<and> read_after ''o/test/a/1.png''
     (fixed demo_env ''i'' ''o'' 1337 (FixedSeq [1]) False None \<lparr>fsys = demo_fs, rng = 0\<rparr>)
     = None"
    by code_simp
  then show ?thesis
    unfolding fixed_int_coerced [THEN conjunct1, of demo_env "''i''" "''o''" 1337 1 False None
        "\<lparr>fsys = demo_fs, rng = 0\<rparr>"] .
qed

section \<open>The shuffler and the order of the listing\<close>


lemma group_by_prefix_str_empty: "group_by_prefix_str [] k = Inr []"
  by (simp add: group_by_prefix_str_def group_by_prefix_def)

lemma group_by_prefix_str_raises: "files \<noteq> [] \<Longrightarrow> group_by_prefix_str files k = Inl AttributeError"
  by (cases files) (simp_all add: group_by_prefix_str_def str_attr_def ebind_def)






section \<open>The materializer and groups\<close>

text \<open>
  With two tuples in a subset, the loop under \<open># check list\<close> transfers the
  members of the first, removes it, and ends: the second tuple has moved to index 0
  and the iterator is at index 1.
\<close>

lemma check_list_two_groups:
  assumes "transfer_members T g0 full_path fs = Inr fs1"
  shows "check_list T 0 [Group g0, Group g1] full_path fs = Inr ([Group g1], fs1)"
proof -
  have "check_list T (Suc 0) [Group g1] full_path fs1 = Inr ([Group g1], fs1)"
    by (subst check_list.simps) simp
  then show ?thesis using assms by (subst check_list.simps) simp
qed

lemma check_list_two_groups_raises:
  assumes "transfer_members T g0 full_path fs = Inl e"
  shows "check_list T 0 [Group g0, Group g1] full_path fs = Inl e"
  using assms by (subst check_list.simps) simp

text \<open>
  Claim C5 fails in the materializer. For a subset of two groups, whatever the groups
  and the file system, \<open>copy_files\<close> and \<open>move_files\<close> raise: when the members
  of the first group have been transferred, the second group is what the loop leaves
  in the list, its members are not transferred (the file system is the one the first
  group's transfers produced), and the worker, given the tuple, raises.
\<close>

theorem second_group_not_transferred:
  "(transfer_members copy2_into g0
        (path_join (path_join output folder_type) (basename class_dir)) fs = Inr fs1
      \<longrightarrow> check_list copy2_into 0 [Group g0, Group g1]
            (path_join (path_join output folder_type) (basename class_dir)) fs
            = Inr ([Group g1], fs1)
        \<and> copy_files [([Group g0, Group g1], folder_type)] class_dir output fs
            = Inl AttributeError)
   \<and> (transfer_members move_into g0
        (path_join (path_join output folder_type) (basename class_dir)) fs = Inr fs1
      \<longrightarrow> check_list move_into 0 [Group g0, Group g1]
            (path_join (path_join output folder_type) (basename class_dir)) fs
            = Inr ([Group g1], fs1)
        \<and> move_files [([Group g0, Group g1], folder_type)] class_dir output fs
            = Inl MoveTypeError)
   \<and> raised (copy_files [([Group g0, Group g1], folder_type)] class_dir output fs) \<noteq> None
   \<and> raised (move_files [([Group g0, Group g1], folder_type)] class_dir output fs) \<noteq> None"
proof (intro conjI impI)
  let ?full = "path_join (path_join output folder_type) (basename class_dir)"
  {
    assume a: "transfer_members copy2_into g0 ?full fs = Inr fs1"
    show "check_list copy2_into 0 [Group g0, Group g1] ?full fs = Inr ([Group g1], fs1)"
      using a by (rule check_list_two_groups)
    then show "copy_files [([Group g0, Group g1], folder_type)] class_dir output fs
            = Inl AttributeError"
      by (simp add: Let_def copy_worker_def)
  }
  {
    assume a: "transfer_members move_into g0 ?full fs = Inr fs1"
    show "check_list move_into 0 [Group g0, Group g1] ?full fs = Inr ([Group g1], fs1)"
      using a by (rule check_list_two_groups)
    then show "move_files [([Group g0, Group g1], folder_type)] class_dir output fs
            = Inl MoveTypeError"
      by (simp add: Let_def move_worker_def)
  }
  show "raised (copy_files [([Group g0, Group g1], folder_type)] class_dir output fs) \<noteq> None"
  proof (cases "transfer_members copy2_into g0 ?full fs")
    case (Inl e)
    then show ?thesis using check_list_two_groups_raises [OF Inl, of g1]
      by (simp add: Let_def raised_def)
  next
    case (Inr fs2)
    then show ?thesis using check_list_two_groups [OF Inr, of g1]
      by (simp add: Let_def raised_def copy_worker_def)
  qed
  show "raised (move_files [([Group g0, Group g1], folder_type)] class_dir output fs) \<noteq> None"
  proof (cases "transfer_members move_into g0 ?full fs")
    case (Inl e)
    then show ?thesis using check_list_two_groups_raises [OF Inl, of g1]
      by (simp add: Let_def raised_def)
  next
    case (Inr fs2)
    then show ?thesis using check_list_two_groups [OF Inr, of g1]
      by (simp add: Let_def raised_def move_worker_def)
  qed
qed

theorem second_group_not_transferred_witness:
  "raised (copy_files [([Group [''i/c/p1_a.png'', ''i/c/p1_b.png''],
                         Group [''i/c/p2_a.png'', ''i/c/p2_b.png'']], ''train'')]
             ''i/c'' ''o'' (fsys pairs_state)) = Some AttributeError
   \<and> map_sum id fst
        (check_list copy2_into 0 [Group [''i/c/p1_a.png'', ''i/c/p1_b.png''],
                                  Group [''i/c/p2_a.png'', ''i/c/p2_b.png'']]
           ''o/train/c'' (fsys pairs_state))
      = Inr [Group [''i/c/p2_a.png'', ''i/c/p2_b.png'']]
   \<and> file_after ''o/train/c/p1_a.png''
        (map_sum id snd
          (check_list copy2_into 0 [Group [''i/c/p1_a.png'', ''i/c/p1_b.png''],
                                    Group [''i/c/p2_a.png'', ''i/c/p2_b.png'']]
             ''o/train/c'' (fsys pairs_state))) = Some ''1a''
   \<and> file_after ''o/train/c/p2_a.png''
        (map_sum id snd
          (check_list copy2_into 0 [Group [''i/c/p1_a.png'', ''i/c/p1_b.png''],
                                    Group [''i/c/p2_a.png'', ''i/c/p2_b.png'']]
             ''o/train/c'' (fsys pairs_state))) = None"
proof -
  let ?g0 = "[''i/c/p1_a.png'', ''i/c/p1_b.png'']"
  let ?g1 = "[''i/c/p2_a.png'', ''i/c/p2_b.png'']"
  have full: "path_join (path_join ''o'' ''train'') (basename ''i/c'') = ''o/train/c''"
    by code_simp
  have "case transfer_members copy2_into ?g0 ''o/train/c'' (fsys pairs_state) of
          Inl e \<Rightarrow> False
        | Inr fs \<Rightarrow> fs ''o/train/c/p1_a.png'' = Some ''1a'' \<and> fs ''o/train/c/p2_a.png'' = None"
    by code_simp
  then obtain fs1 where
    t: "transfer_members copy2_into ?g0 ''o/train/c'' (fsys pairs_state) = Inr fs1"
    and r: "fs1 ''o/train/c/p1_a.png'' = Some ''1a''" "fs1 ''o/train/c/p2_a.png'' = None"
    by (cases "transfer_members copy2_into ?g0 ''o/train/c'' (fsys pairs_state)") simp_all
  have t': "transfer_members copy2_into ?g0
              (path_join (path_join ''o'' ''train'') (basename ''i/c'')) (fsys pairs_state) = Inr fs1"
    using t unfolding full .
  from second_group_not_transferred [THEN conjunct1, rule_format, OF t', of ?g1]
  have c: "check_list copy2_into 0 [Group ?g0, Group ?g1] ''o/train/c'' (fsys pairs_state)
             = Inr ([Group ?g1], fs1)"
    and e: "copy_files [([Group ?g0, Group ?g1], ''train'')] ''i/c'' ''o'' (fsys pairs_state)
             = Inl AttributeError"
    unfolding full by simp_all
  show ?thesis unfolding c e using r by (simp add: raised_def file_after_def)
qed

section \<open>The materializer and nested files\<close>

lemma check_list_one_file:
  "check_list T 0 [File p] full_path fs = Inr ([File p], fs)"
proof -
  have "check_list T (Suc 0) [File p] full_path fs = Inr ([File p], fs)"
    by (subst check_list.simps) simp
  then show ?thesis by (subst check_list.simps) simp
qed

text \<open>
  Claim C8 fails in move mode. \<open>_move\<close> hands the file and the destination class
  directory to \<open>shutil.move\<close>, which places the file under its own name in that
  directory: whatever lies between the class directory and the name is dropped, where
  \<open>_copy\<close> recreates it. A file that exists, moved alone into a subset where its
  name is free, ends at \<open>output/subset/class/name\<close> and is gone from its source.
\<close>

theorem move_files_flattens:
  "fs src = Some c \<and> fs (path_join (path_join (path_join output folder_type) (basename class_dir))
                            (basename src)) = None
   \<longrightarrow> move_files [([File src], folder_type)] class_dir output fs
        = Inr ((fs(src := None))
                 (path_join (path_join (path_join output folder_type) (basename class_dir))
                    (basename src) \<mapsto> c))"
  by (simp add: check_list_one_file move_worker_def move_into_def Let_def)

theorem move_files_flattens_witness:
  "file_after ''o/train/c/x.png''
      (move_files [([File ''i/c/sub/x.png''], ''train'')] ''i/c'' ''o'' (fsys nested_state)) = Some ''X''
   \<and> file_after ''o/train/c/sub/x.png''
      (move_files [([File ''i/c/sub/x.png''], ''train'')] ''i/c'' ''o'' (fsys nested_state)) = None
   \<and> file_after ''i/c/sub/x.png''
      (move_files [([File ''i/c/sub/x.png''], ''train'')] ''i/c'' ''o'' (fsys nested_state)) = None
   \<and> file_after ''o/train/c/sub/x.png''
      (copy_files [([File ''i/c/sub/x.png''], ''train'')] ''i/c'' ''o'' (fsys nested_state)) = Some ''X''
   \<and> file_after ''o/train/c/x.png''
      (copy_files [([File ''i/c/sub/x.png''], ''train'')] ''i/c'' ''o'' (fsys nested_state)) = None
   \<and> file_after ''i/c/sub/x.png''
      (copy_files [([File ''i/c/sub/x.png''], ''train'')] ''i/c'' ''o'' (fsys nested_state)) = Some ''X''"
proof -
  have pre: "fsys nested_state ''i/c/sub/x.png'' = Some ''X''
     \<and> fsys nested_state (path_join (path_join (path_join ''o'' ''train'') (basename ''i/c''))
                            (basename ''i/c/sub/x.png'')) = None"
    by code_simp
  have dst: "path_join (path_join (path_join ''o'' ''train'') (basename ''i/c''))
                            (basename ''i/c/sub/x.png'') = ''o/train/c/x.png''"
    by code_simp
  have m: "move_files [([File ''i/c/sub/x.png''], ''train'')] ''i/c'' ''o'' (fsys nested_state)
        = Inr (((fsys nested_state)(''i/c/sub/x.png'' := None))(''o/train/c/x.png'' \<mapsto> ''X''))"
    using move_files_flattens [rule_format, OF pre]
    unfolding dst .
  have c: "file_after ''o/train/c/sub/x.png''
      (copy_files [([File ''i/c/sub/x.png''], ''train'')] ''i/c'' ''o'' (fsys nested_state)) = Some ''X''
   \<and> file_after ''o/train/c/x.png''
      (copy_files [([File ''i/c/sub/x.png''], ''train'')] ''i/c'' ''o'' (fsys nested_state)) = None
   \<and> file_after ''i/c/sub/x.png''
      (copy_files [([File ''i/c/sub/x.png''], ''train'')] ''i/c'' ''o'' (fsys nested_state)) = Some ''X''"
    by code_simp
  show ?thesis unfolding m using c by (simp add: file_after_def nested_state_def)
qed

section \<open>Every file once in the output tree\<close>

text \<open>
  Claim C6 fails when grouping is active. For every class whose listing is not empty
  and every group size, \<open>setup_files\<close> raises \<open>AttributeError\<close> at the first
  \<open>f.name\<close>, so the split of the class raises before anything is copied or moved,
  in ratio mode and in fixed mode: no file of the class reaches the output tree.
\<close>

theorem grouping_raises_before_copy:
  "list_files E (fsys s) class_dir \<noteq> [] \<longrightarrow>
     setup_files E class_dir seed (Some k) s = Inl AttributeError
     \<and> split_class_dir_ratio E class_dir output ratio seed move (Some k) s = Inl AttributeError
     \<and> split_class_dir_fixed E class_dir output counts seed (Some k) s = Inl AttributeError"
proof
  assume ne: "list_files E (fsys s) class_dir \<noteq> []"
  have s: "setup_files E class_dir seed (Some k) s = Inl AttributeError"
    using ne by (simp add: setup_files_def Let_def group_by_prefix_str_raises)
  show "setup_files E class_dir seed (Some k) s = Inl AttributeError
     \<and> split_class_dir_ratio E class_dir output ratio seed move (Some k) s = Inl AttributeError
     \<and> split_class_dir_fixed E class_dir output counts seed (Some k) s = Inl AttributeError"
    using s by (simp add: split_class_dir_ratio_def split_class_dir_fixed_def ebind_def)
qed

theorem grouping_raises_before_copy_witness:
  "list_files pairs_env (fsys pairs_state) ''i/c'' = pairs_listing
   \<and> split_class_dir_ratio pairs_env ''i/c'' ''o'' [0.5, 0.5] 1337 False (Some 2) pairs_state
       = Inl AttributeError
   \<and> split_class_dir_fixed pairs_env ''i/c'' ''o'' [1] 1337 (Some 2) pairs_state
       = Inl AttributeError"
proof -
  have l: "list_files pairs_env (fsys pairs_state) ''i/c'' = pairs_listing"
    by code_simp
  have ne: "list_files pairs_env (fsys pairs_state) ''i/c'' \<noteq> []"
    unfolding l by (simp add: pairs_listing_def)
  show ?thesis
    using grouping_raises_before_copy [rule_format, OF ne, of 1337 2 "''o''" "[0.5, 0.5]" False "[1]"] l
    by simp
qed

end
